theory Spec2Isabelle
  imports Main "HOL-Library.AList"
begin

section \<open>The factory graph builder of model\_factory\_generator.py\<close>

text \<open>
  The development embeds \<^verbatim>\<open>factory_generator\<close> and the closure \<^verbatim>\<open>make_factory\<close> it
  returns, together with \<^verbatim>\<open>RegistryModelFactory._create\<close> and the post-generation hook
  of \<^verbatim>\<open>_generate_many_to_one\<close>. Python exceptions are values of \<open>error\<close>; every
  function that touches the registries or the model classes takes the state and returns
  it, also when it raises, since an exception does not undo what was written before it.
\<close>

subsection \<open>Python values\<close>

text \<open>
  The values that overrides hold: what a JSON fixture file and the literals of the test
  module provide (floating-point numbers are left out).
\<close>

datatype pyval =
    PyNone
  | PyBool bool
  | PyInt int
  | PyStr string
  | PyList "pyval list"
  | PyDict "(string \<times> pyval) list"

text \<open>Truth value testing, as \<^verbatim>\<open>if override:\<close> applies it.\<close>

fun py_truthy :: "pyval \<Rightarrow> bool" where
  "py_truthy PyNone = False"
| "py_truthy (PyBool b) = b"
| "py_truthy (PyInt i) = (i \<noteq> 0)"
| "py_truthy (PyStr s) = (s \<noteq> [])"
| "py_truthy (PyList xs) = (xs \<noteq> [])"
| "py_truthy (PyDict kvs) = (kvs \<noteq> [])"

datatype error = KeyError | StopIteration | RecursionError | AttributeError | FactoryError

subsection \<open>The schema: columns, relationships, model classes\<close>

text \<open>
  \<open>sa_type\<close> is the class of \<^verbatim>\<open>col.type\<close> with the parameters the providers read
  (\<^verbatim>\<open>length\<close>, \<^verbatim>\<open>enums\<close>); \<open>OtherType\<close> stands for every class that is not a key of
  \<^verbatim>\<open>data_providers\<close> (the lookup is by exact class).
\<close>

datatype sa_type =
    UUID
  | String "nat option"
  | Integer
  | Float
  | Boolean
  | DateTime
  | Enum "string list"
  | PG_ENUM "string list"
  | JSON
  | JSONB
  | OtherType string

text \<open>
  \<open>foreign_keys\<close> lists the \<^verbatim>\<open>column.table.fullname\<close> of each foreign key of the column
  and \<open>local_columns\<close> the keys of a relationship's local columns, both in the order
  in which Python iterates the underlying set.
\<close>

record column =
  col_key :: string
  col_name :: string
  foreign_keys :: "string list"
  col_type :: sa_type
  primary_key :: bool

record relationship =
  rel_key :: string
  local_columns :: "string list"
  target :: string
  uselist :: bool

type_synonym cls_ref = nat

datatype cls_attr = Relationship string

text \<open>
  A model class: \<open>cls_name\<close> is \<^verbatim>\<open>__name__\<close>, \<open>tablename\<close> is \<^verbatim>\<open>__tablename__\<close>
  (absent on a class mapped through \<^verbatim>\<open>__table__\<close> alone), \<open>fullname\<close> is
  \<^verbatim>\<open>__table__.fullname\<close>, \<open>columns\<close> is \<^verbatim>\<open>__table__.c._all_columns\<close> and
  \<open>relationships\<close> is \<^verbatim>\<open>__mapper__.relationships\<close>. \<open>serialize_rules\<close> is \<open>None\<close>
  when the class has no such attribute. \<open>cls_attrs\<close> holds the attributes that
  \<^verbatim>\<open>setattr\<close> put on the class; what the mapper makes of such an assignment is left to
  SQLAlchemy, and \<open>relationships\<close> stays the collection the class was loaded with.
\<close>

record model =
  cls_name :: string
  tablename :: "string option"
  fullname :: string
  columns :: "column list"
  relationships :: "relationship list"
  serialize_rules :: "string list option"
  cls_attrs :: "(string \<times> cls_attr) list"

subsection \<open>Factories\<close>

datatype faker_arg = MaxChars nat | Elements "string list"

text \<open>
  A factory is the class built by \<^verbatim>\<open>type(model.__name__, (RegistryModelFactory,),
  factory_attributes)\<close>: \<open>fid\<close> is the identity of the class object (a serial number),
  \<open>fattrs\<close> the attribute dictionary in insertion order.
\<close>

datatype attribute =
    Faker string "faker_arg list"
  | FuzzyFloat int
  | Val pyval
  | SubFactory factory
  | PostGeneration factory string
  | Meta cls_ref
and factory =
    Factory (fid: nat) (fname: string) (fattrs: "(string \<times> attribute) list")

text \<open>
  Truth value of an attribute used as an override: a plain value by \<open>py_truthy\<close>,
  a declaration object is always true.
\<close>

fun truthy :: "attribute \<Rightarrow> bool" where
  "truthy (Val v) = py_truthy v"
| "truthy _ = True"

record dynamic_relationship =
  foreign_table_name :: string
  relation_name :: string

subsection \<open>Instances and the session state\<close>

datatype val =
    Py pyval
  | Drawn string "faker_arg list" nat
  | Ref nat
  | Coll "nat list"

record model_instance =
  inst_model :: cls_ref
  inst_attrs :: "(string \<times> val) list"

text \<open>
  \<open>classes\<close> is the store of the live model classes, shared by every session.
  \<open>factory_registry\<close> and \<open>model_instance_registry\<close> are the two dictionaries of the
  closure; \<open>instances\<close> are the objects materialised so far, an instance being referred
  to by its position; \<open>next_fid\<close> numbers the factory classes and \<open>draws\<close> the
  random values drawn.
\<close>

record state =
  classes :: "cls_ref \<Rightarrow> model"
  factory_registry :: "string \<rightharpoonup> factory"
  model_instance_registry :: "string \<rightharpoonup> nat"
  instances :: "model_instance list"
  next_fid :: nat
  draws :: nat

record env =
  tables_to_models :: "string \<rightharpoonup> cls_ref"
  overrides :: "string \<rightharpoonup> (string \<rightharpoonup> attribute)"

type_synonym 'a result = "(error + 'a) \<times> state"

subsection \<open>factory\_generator\<close>

text \<open>
  \<open>class_members\<close> are the declarative classes among the members of the module, in the
  order of \<^verbatim>\<open>inspect.getmembers\<close>. \<^verbatim>\<open>tables_to_models\<close> keeps, for each
  \<^verbatim>\<open>__tablename__\<close>, the last member that has it; members without \<^verbatim>\<open>__tablename__\<close> are
  left out. \<^verbatim>\<open>overrides or {}\<close> turns \<open>None\<close> into the empty dictionary. \<open>new_session\<close>
  is the state of the closure when \<^verbatim>\<open>factory_generator\<close> returns: both registries empty.
\<close>

definition factory_generator ::
  "(cls_ref \<Rightarrow> model) \<Rightarrow> cls_ref list \<Rightarrow> (string \<rightharpoonup> (string \<rightharpoonup> attribute)) option \<Rightarrow> env" where
  "factory_generator cs class_members ovr =
     \<lparr> tables_to_models =
         fold (\<lambda>member t. case tablename (cs member) of None \<Rightarrow> t | Some tn \<Rightarrow> t(tn \<mapsto> member))
           class_members Map.empty,
       overrides = (case ovr of None \<Rightarrow> Map.empty | Some d \<Rightarrow> d) \<rparr>"

definition new_session :: "(cls_ref \<Rightarrow> model) \<Rightarrow> state" where
  "new_session cs =
     \<lparr> classes = cs, factory_registry = Map.empty, model_instance_registry = Map.empty,
       instances = [], next_fid = 0, draws = 0 \<rparr>"

subsection \<open>The provider table\<close>

text \<open>\<^verbatim>\<open>col.type.length or 36\<close>: a missing length and the length 0 both give 36.\<close>

fun max_chars :: "sa_type \<Rightarrow> nat" where
  "max_chars (String (Some l)) = (if l = 0 then 36 else l)"
| "max_chars _ = 36"

fun enums :: "sa_type \<Rightarrow> string list" where
  "enums (Enum vs) = vs"
| "enums (PG_ENUM vs) = vs"
| "enums _ = []"

text \<open>The dictionary \<^verbatim>\<open>data_providers\<close>, looked up by the class of the column type.\<close>

fun data_providers :: "sa_type \<Rightarrow> (column \<Rightarrow> attribute) option" where
  "data_providers UUID = Some (\<lambda>_. Faker ''uuid4'' [])"
| "data_providers (String _) =
     Some (\<lambda>col. if \<not> primary_key col then Faker ''pystr'' [MaxChars (max_chars (col_type col))]
                 else Faker ''uuid4'' [])"
| "data_providers Integer = Some (\<lambda>_. Faker ''random_int'' [])"
| "data_providers Float = Some (\<lambda>_. FuzzyFloat 0)"
| "data_providers Boolean = Some (\<lambda>_. Faker ''pybool'' [])"
| "data_providers DateTime = Some (\<lambda>_. Faker ''date_this_month'' [])"
| "data_providers (Enum _) = Some (\<lambda>col. Faker ''random_element'' [Elements (enums (col_type col))])"
| "data_providers (PG_ENUM _) = Some (\<lambda>col. Faker ''random_element'' [Elements (enums (col_type col))])"
| "data_providers JSON = Some (\<lambda>_. Val (PyDict []))"
| "data_providers JSONB = Some (\<lambda>_. Val (PyDict []))"
| "data_providers (OtherType _) = None"

subsection \<open>make\_factory\<close>

text \<open>
  \<^verbatim>\<open>{next(iter(relation.local_columns)).key for relation in ...}\<close>: the first local
  column of each relationship; \<^verbatim>\<open>next\<close> on an empty iterator raises StopIteration.
\<close>

fun relation_cols :: "relationship list \<Rightarrow> error + string set" where
  "relation_cols [] = Inr {}"
| "relation_cols (relation # rels) =
     (case local_columns relation of
        [] \<Rightarrow> Inl StopIteration
      | c # _ \<Rightarrow> (case relation_cols rels of Inl e \<Rightarrow> Inl e | Inr rc \<Rightarrow> Inr (insert c rc)))"

text \<open>\<^verbatim>\<open>key[-3:]\<close> and \<^verbatim>\<open>key[:-3]\<close>; on a key shorter than three characters the
  first is the whole key and the second is empty.\<close>

definition last3 :: "string \<Rightarrow> string" where
  "last3 k = drop (length k - 3) k"

definition strip3 :: "string \<Rightarrow> string" where
  "strip3 k = take (length k - 3) k"

text \<open>\<^verbatim>\<open>(overrides.get(table_name) or {}).get(col.name)\<close>\<close>

definition get_override :: "env \<Rightarrow> string \<Rightarrow> string \<Rightarrow> attribute option" where
  "get_override e table_name cname =
     (case overrides e table_name of None \<Rightarrow> None | Some d \<Rightarrow> d cname)"

text \<open>\<^verbatim>\<open>data_providers[type(col.type)](col)\<close>; a missing key raises KeyError.\<close>

definition provide :: "column \<Rightarrow> error + attribute" where
  "provide col = (case data_providers (col_type col) of None \<Rightarrow> Inl KeyError | Some p \<Rightarrow> Inr (p col))"

text \<open>Lines 109 to 114: the override when it is true, the provider's value otherwise.\<close>

definition column_attribute :: "env \<Rightarrow> string \<Rightarrow> column \<Rightarrow> error + attribute" where
  "column_attribute e table_name col =
     (case get_override e table_name (col_name col) of
        None \<Rightarrow> provide col
      | Some ov \<Rightarrow> if truthy ov then Inr ov else provide col)"

text \<open>Lines 97 to 99: the \<^verbatim>\<open>continue\<close> taken by a column with foreign keys.\<close>

definition fk_skipped :: "string set \<Rightarrow> column \<Rightarrow> bool" where
  "fk_skipped rc col \<longleftrightarrow>
     foreign_keys col \<noteq> [] \<and> (col_key col \<in> rc \<or> last3 (col_key col) \<noteq> ''_id'')"

text \<open>
  The loop over the columns (lines 96 to 114), with the two collections it fills as
  accumulators: \<open>fa\<close> is \<^verbatim>\<open>factory_attributes\<close>, \<open>dr\<close> is \<^verbatim>\<open>dynamic_relationships\<close>.
  A dictionary assignment \<^verbatim>\<open>d[k] = v\<close> is \<open>AList.update k v d\<close>.
\<close>

fun column_loop ::
  "env \<Rightarrow> string \<Rightarrow> string set \<Rightarrow> column list \<Rightarrow> (string \<times> attribute) list \<Rightarrow>
   dynamic_relationship list \<Rightarrow> error + ((string \<times> attribute) list \<times> dynamic_relationship list)" where
  "column_loop e table_name rc [] fa dr = Inr (fa, dr)"
| "column_loop e table_name rc (col # cols) fa dr =
     (if fk_skipped rc col then column_loop e table_name rc cols fa dr
      else
        (let dr' = (case foreign_keys col of
                      [] \<Rightarrow> dr
                    | fk # _ \<Rightarrow> dr @ [\<lparr> foreign_table_name = fk, relation_name = strip3 (col_key col) \<rparr>])
         in case column_attribute e table_name col of
              Inl err \<Rightarrow> Inl err
            | Inr a \<Rightarrow> column_loop e table_name rc cols (AList.update (col_name col) a fa) dr'))"

text \<open>\<^verbatim>\<open>_generate_many_to_one\<close>: the hook is kept as the pair of the factory and the
  relation name it closes over.\<close>

definition generate_many_to_one :: "factory \<Rightarrow> string \<Rightarrow> attribute" where
  "generate_many_to_one model_factory rn = PostGeneration model_factory rn"

text \<open>
  The loop over the declared relationships (lines 116 to 129). \<open>rec\<close> is the recursive
  call \<^verbatim>\<open>make_factory(foreign_model, processed_tables)\<close>.
\<close>

fun wire_relationships ::
  "(state \<Rightarrow> cls_ref \<Rightarrow> string set \<Rightarrow> factory result) \<Rightarrow> env \<Rightarrow> string set \<Rightarrow>
   relationship list \<Rightarrow> (string \<times> attribute) list \<Rightarrow> state \<Rightarrow> (string \<times> attribute) list result" where
  "wire_relationships rec e processed [] fa s = (Inr fa, s)"
| "wire_relationships rec e processed (r # rs) fa s =
     (if target r \<in> processed then wire_relationships rec e processed rs fa s
      else
        (case tables_to_models e (target r) of
           None \<Rightarrow> (Inl KeyError, s)
         | Some foreign_model \<Rightarrow>
             (case rec s foreign_model processed of
                (Inl err, s') \<Rightarrow> (Inl err, s')
              | (Inr foreign_model_factory, s') \<Rightarrow>
                  wire_relationships rec e processed rs
                    (AList.update (rel_key r)
                       (if \<not> uselist r then SubFactory foreign_model_factory
                        else generate_many_to_one foreign_model_factory (rel_key r)) fa) s')))"

text \<open>
  Lines 134 to 142: \<^verbatim>\<open>setattr\<close> of the new relationship on the model class, and the
  exclusion rule appended when the class has \<^verbatim>\<open>serialize_rules\<close>.
\<close>

definition add_relationship :: "cls_ref \<Rightarrow> string \<Rightarrow> string \<Rightarrow> state \<Rightarrow> state" where
  "add_relationship model rn foreign_name s =
     (let m = classes s model;
          m1 = m\<lparr> cls_attrs := AList.update rn (Relationship foreign_name) (cls_attrs m) \<rparr>;
          m2 = (case serialize_rules m1 of
                  None \<Rightarrow> m1
                | Some rules \<Rightarrow> m1\<lparr> serialize_rules := Some (rules @ [''-'' @ rn]) \<rparr>)
      in s\<lparr> classes := (classes s)(model := m2) \<rparr>)"

text \<open>The loop over the inferred relationships (lines 131 to 146).\<close>

fun wire_dynamic ::
  "(state \<Rightarrow> cls_ref \<Rightarrow> string set \<Rightarrow> factory result) \<Rightarrow> env \<Rightarrow> string set \<Rightarrow> cls_ref \<Rightarrow>
   dynamic_relationship list \<Rightarrow> (string \<times> attribute) list \<Rightarrow> state \<Rightarrow> (string \<times> attribute) list result" where
  "wire_dynamic rec e processed model [] fa s = (Inr fa, s)"
| "wire_dynamic rec e processed model (d # ds) fa s =
     (case tables_to_models e (foreign_table_name d) of
        None \<Rightarrow> (Inl KeyError, s)
      | Some foreign_model \<Rightarrow>
          (case rec s foreign_model processed of
             (Inl err, s') \<Rightarrow> (Inl err, s')
           | (Inr foreign_model_factory, s') \<Rightarrow>
               wire_dynamic rec e processed model ds
                 (AList.update (relation_name d) (SubFactory foreign_model_factory) fa)
                 (add_relationship model (relation_name d) (cls_name (classes s' foreign_model)) s')))"

text \<open>Lines 148 to 153: the factory class is created and registered.\<close>

definition register_factory ::
  "cls_ref \<Rightarrow> (string \<times> attribute) list \<Rightarrow> state \<Rightarrow> factory result" where
  "register_factory model fa s =
     (let m = classes s model;
          f = Factory (next_fid s) (cls_name m) (AList.update ''Meta'' (Meta model) fa)
      in (Inr f, s\<lparr> factory_registry := (factory_registry s)(fullname m \<mapsto> f),
                     next_fid := Suc (next_fid s) \<rparr>))"

text \<open>
  \<^verbatim>\<open>make_factory\<close>. The first argument bounds the depth of the nested calls, as the
  interpreter's recursion limit does: a call that would exceed it raises
  RecursionError. \<^verbatim>\<open>processed_tables\<close> is a set; \<open>None\<close> and the empty set are
  treated alike by \<^verbatim>\<open>processed_tables or set()\<close>, so \<open>{}\<close> stands for both.
\<close>

fun make_factory :: "env \<Rightarrow> nat \<Rightarrow> state \<Rightarrow> cls_ref \<Rightarrow> string set \<Rightarrow> factory result" where
  "make_factory e 0 s model processed_tables = (Inl RecursionError, s)"
| "make_factory e (Suc n) s model processed_tables =
     (let table_name = fullname (classes s model) in
      case factory_registry s table_name of
        Some f \<Rightarrow> (Inr f, s)
      | None \<Rightarrow>
          (let processed = insert table_name processed_tables in
           case relation_cols (relationships (classes s model)) of
             Inl err \<Rightarrow> (Inl err, s)
           | Inr rc \<Rightarrow>
               (case column_loop e table_name rc (columns (classes s model)) [] [] of
                  Inl err \<Rightarrow> (Inl err, s)
                | Inr (fa, dr) \<Rightarrow>
                    (case wire_relationships (make_factory e n) e processed
                            (relationships (classes s model)) fa s of
                       (Inl err, s1) \<Rightarrow> (Inl err, s1)
                     | (Inr fa1, s1) \<Rightarrow>
                         (case wire_dynamic (make_factory e n) e processed model dr fa1 s1 of
                            (Inl err, s2) \<Rightarrow> (Inl err, s2)
                          | (Inr fa2, s2) \<Rightarrow> register_factory model fa2 s2)))))"

subsection \<open>Invoking a factory\<close>

text \<open>
  Calling a factory class runs factory\_boy's generation protocol under the create
  strategy (\<^verbatim>\<open>Factory.build\<close> runs it under the build strategy): the declarations are
  resolved to keyword arguments (a sub-factory by a nested call under the same strategy),
  the instance is obtained from \<^verbatim>\<open>_create\<close> (create) or \<^verbatim>\<open>_build\<close> (build), and then
  every post-generation hook is called on that instance with the flag \<^verbatim>\<open>create\<close>, which
  says whether the strategy is create. A class attribute that is not a declaration is
  passed on as it is. The hooks run here in the order of the attribute dictionary;
  factory\_boy sorts them by name, and nothing below depends on their order.
\<close>

datatype strategy = CREATE_STRATEGY | BUILD_STRATEGY

text \<open>
  \<^verbatim>\<open>Factory._create\<close>, the method that \<^verbatim>\<open>super()._create\<close> reaches: it calls
  \<^verbatim>\<open>model_class(**kwargs)\<close>. The constructor is taken to store its keyword arguments
  in a new object, which is referred to by its position in \<open>instances\<close>.
\<close>

definition Factory_create :: "cls_ref \<Rightarrow> (string \<times> val) list \<Rightarrow> state \<Rightarrow> nat \<times> state" where
  "Factory_create model_class kwargs s =
     (length (instances s),
      s\<lparr> instances := instances s @ [\<lparr> inst_model = model_class, inst_attrs = kwargs \<rparr>] \<rparr>)"

text \<open>\<^verbatim>\<open>RegistryModelFactory._create\<close> (lines 68 to 75).\<close>

definition RegistryModelFactory_create :: "cls_ref \<Rightarrow> (string \<times> val) list \<Rightarrow> state \<Rightarrow> nat result" where
  "RegistryModelFactory_create model_class kwargs s =
     (case tablename (classes s model_class) of
        None \<Rightarrow> (Inl AttributeError, s)
      | Some instance_key \<Rightarrow>
          (case model_instance_registry s instance_key of
             Some inst \<Rightarrow> (Inr inst, s)
           | None \<Rightarrow>
               (case Factory_create model_class kwargs s of
                  (inst, s') \<Rightarrow>
                    (Inr inst,
                     s'\<lparr> model_instance_registry := (model_instance_registry s')(instance_key \<mapsto> inst) \<rparr>))))"

text \<open>The instance comes from \<^verbatim>\<open>_create\<close> under the create strategy and from
  \<^verbatim>\<open>_build\<close>, which is not overridden, under the build strategy.\<close>

definition instantiate :: "strategy \<Rightarrow> cls_ref \<Rightarrow> (string \<times> val) list \<Rightarrow> state \<Rightarrow> nat result" where
  "instantiate st model_class kwargs s =
     (case st of
        CREATE_STRATEGY \<Rightarrow> RegistryModelFactory_create model_class kwargs s
      | BUILD_STRATEGY \<Rightarrow> (case Factory_create model_class kwargs s of (inst, s') \<Rightarrow> (Inr inst, s')))"

text \<open>\<^verbatim>\<open>Meta.model\<close>; a factory class without it cannot be called.\<close>

definition get_model_class :: "(string \<times> attribute) list \<Rightarrow> cls_ref option" where
  "get_model_class fa = (case map_of fa ''Meta'' of Some (Meta m) \<Rightarrow> Some m | _ \<Rightarrow> None)"

text \<open>
  \<^verbatim>\<open>getattr(self, relation_name)\<close> as a collection: empty when the attribute was never
  set, and no collection at all (so that \<^verbatim>\<open>.append\<close> raises) when the attribute holds
  another kind of value.
\<close>

definition getattr_collection :: "state \<Rightarrow> nat \<Rightarrow> string \<Rightarrow> nat list option" where
  "getattr_collection s self rn =
     (if self < length (instances s)
      then (case map_of (inst_attrs (instances s ! self)) rn of
              None \<Rightarrow> Some []
            | Some (Coll xs) \<Rightarrow> Some xs
            | Some _ \<Rightarrow> None)
      else None)"

text \<open>\<^verbatim>\<open>.append(related)\<close> on that collection.\<close>

definition append_related :: "nat \<Rightarrow> string \<Rightarrow> nat \<Rightarrow> state \<Rightarrow> state" where
  "append_related self rn related s =
     (case getattr_collection s self rn of
        None \<Rightarrow> s
      | Some xs \<Rightarrow>
          s\<lparr> instances := (instances s)[self :=
               (instances s ! self)\<lparr> inst_attrs :=
                  AList.update rn (Coll (xs @ [related])) (inst_attrs (instances s ! self)) \<rparr>] \<rparr>)"

text \<open>
  \<open>call_factory\<close> is the call of a factory class, \<open>resolve\<close> the evaluation of its
  declarations, \<open>post_generation\<close> the run of its hooks, and \<open>many_to_one\<close> the hook
  of lines 24 to 27, where \<^verbatim>\<open>model_factory()\<close> is a call under the create strategy.
\<close>

fun call_factory :: "strategy \<Rightarrow> factory \<Rightarrow> state \<Rightarrow> nat result"
and resolve :: "strategy \<Rightarrow> (string \<times> attribute) list \<Rightarrow> state \<Rightarrow> (string \<times> val) list result"
and post_generation :: "strategy \<Rightarrow> nat \<Rightarrow> (string \<times> attribute) list \<Rightarrow> state \<Rightarrow> unit result"
and many_to_one :: "factory \<Rightarrow> string \<Rightarrow> nat \<Rightarrow> bool \<Rightarrow> state \<Rightarrow> unit result" where
  "call_factory st (Factory i nm fa) s =
     (case get_model_class fa of
        None \<Rightarrow> (Inl FactoryError, s)
      | Some model_class \<Rightarrow>
          (case resolve st fa s of
             (Inl err, s1) \<Rightarrow> (Inl err, s1)
           | (Inr kwargs, s1) \<Rightarrow>
               (case instantiate st model_class kwargs s1 of
                  (Inl err, s2) \<Rightarrow> (Inl err, s2)
                | (Inr inst, s2) \<Rightarrow>
                    (case post_generation st inst fa s2 of
                       (Inl err, s3) \<Rightarrow> (Inl err, s3)
                     | (Inr _, s3) \<Rightarrow> (Inr inst, s3)))))"
| "resolve st [] s = (Inr [], s)"
| "resolve st ((k, Faker provider args) # rest) s =
     (case resolve st rest (s\<lparr> draws := Suc (draws s) \<rparr>) of
        (Inl err, s1) \<Rightarrow> (Inl err, s1)
      | (Inr kwargs, s1) \<Rightarrow> (Inr ((k, Drawn provider args (draws s)) # kwargs), s1))"
| "resolve st ((k, FuzzyFloat low) # rest) s =
     (case resolve st rest (s\<lparr> draws := Suc (draws s) \<rparr>) of
        (Inl err, s1) \<Rightarrow> (Inl err, s1)
      | (Inr kwargs, s1) \<Rightarrow> (Inr ((k, Drawn ''FuzzyFloat'' [] (draws s)) # kwargs), s1))"
| "resolve st ((k, Val v) # rest) s =
     (case resolve st rest s of
        (Inl err, s1) \<Rightarrow> (Inl err, s1)
      | (Inr kwargs, s1) \<Rightarrow> (Inr ((k, Py v) # kwargs), s1))"
| "resolve st ((k, SubFactory f) # rest) s =
     (case call_factory st f s of
        (Inl err, s1) \<Rightarrow> (Inl err, s1)
      | (Inr inst, s1) \<Rightarrow>
          (case resolve st rest s1 of
             (Inl err, s2) \<Rightarrow> (Inl err, s2)
           | (Inr kwargs, s2) \<Rightarrow> (Inr ((k, Ref inst) # kwargs), s2)))"
| "resolve st ((k, PostGeneration f rn) # rest) s = resolve st rest s"
| "resolve st ((k, Meta m) # rest) s = resolve st rest s"
| "post_generation st self [] s = (Inr (), s)"
| "post_generation st self ((k, PostGeneration f rn) # rest) s =
     (case many_to_one f rn self (st = CREATE_STRATEGY) s of
        (Inl err, s1) \<Rightarrow> (Inl err, s1)
      | (Inr _, s1) \<Rightarrow> post_generation st self rest s1)"
| "post_generation st self (_ # rest) s = post_generation st self rest s"
| "many_to_one model_factory rn self create s =
     (if \<not> create then (Inr (), s)
      else
        (case getattr_collection s self rn of
           None \<Rightarrow> (Inl AttributeError, s)
         | Some _ \<Rightarrow>
             (case call_factory CREATE_STRATEGY model_factory s of
                (Inl err, s1) \<Rightarrow> (Inl err, s1)
              | (Inr related, s1) \<Rightarrow> (Inr (), append_related self rn related s1))))"


subsection \<open>The resolver and the class store, stated declaratively\<close>

text \<open>
  The column set that the spec attributes to the resolver: every key reached through the
  local join columns of a declared relationship.
\<close>

definition declared_relationship_columns :: "relationship list \<Rightarrow> string set" where
  "declared_relationship_columns rels = (\<Union>r\<in>set rels. set (local_columns r))"

text \<open>
  The set holding the first local column of each declared relationship, and the list
  of inferred relationships for a covered set \<open>rc\<close>: one for each column, in order, that
  has a foreign key, whose key is not in \<open>rc\<close> and ends with \<^verbatim>\<open>_id\<close>; its target is
  the table of the first foreign key and its name the key without the suffix.
\<close>

definition first_local_columns :: "relationship list \<Rightarrow> string set" where
  "first_local_columns rels = (\<lambda>r. hd (local_columns r)) ` set rels"

definition inferred_relationships :: "string set \<Rightarrow> column list \<Rightarrow> dynamic_relationship list" where
  "inferred_relationships rc cols =
     map (\<lambda>c. \<lparr> foreign_table_name = hd (foreign_keys c), relation_name = strip3 (col_key c) \<rparr>)
       (filter (\<lambda>c. foreign_keys c \<noteq> [] \<and> col_key c \<notin> rc \<and> last3 (col_key c) = ''_id'') cols)"

text \<open>
  A class \<open>m'\<close> extends \<open>m\<close> when it is the same class with possibly more attributes
  set on it and more rules appended to \<^verbatim>\<open>serialize_rules\<close>. A state extends another
  through builds when every class extends its former self, every factory that was
  registered still is, and the instances are untouched.
\<close>

definition class_extends :: "model \<Rightarrow> model \<Rightarrow> bool" where
  "class_extends m m' \<longleftrightarrow>
     cls_name m' = cls_name m \<and> tablename m' = tablename m \<and> fullname m' = fullname m \<and>
     columns m' = columns m \<and> relationships m' = relationships m \<and>
     fst ` set (cls_attrs m) \<subseteq> fst ` set (cls_attrs m') \<and>
     (case serialize_rules m of
        None \<Rightarrow> serialize_rules m' = None
      | Some rules \<Rightarrow> \<exists>ys. serialize_rules m' = Some (rules @ ys))"

definition build_extends :: "state \<Rightarrow> state \<Rightarrow> bool" where
  "build_extends s s' \<longleftrightarrow>
     (\<forall>c. class_extends (classes s c) (classes s' c)) \<and>
     (\<forall>t g. factory_registry s t = Some g \<longrightarrow> factory_registry s' t = Some g) \<and>
     model_instance_registry s' = model_instance_registry s \<and>
     instances s' = instances s \<and> draws s' = draws s"

text \<open>
  One state grows into another through invocations: the classes and factories are
  untouched, registered instances stay registered, instances are only added and keep
  their class, a collection only gets longer, and an attribute that refers to an
  instance keeps referring to it.
\<close>

definition session_grows :: "state \<Rightarrow> state \<Rightarrow> bool" where
  "session_grows s s' \<longleftrightarrow>
     classes s' = classes s \<and> factory_registry s' = factory_registry s \<and>
     (\<forall>k a. model_instance_registry s k = Some a \<longrightarrow> model_instance_registry s' k = Some a) \<and>
     length (instances s) \<le> length (instances s') \<and>
     (\<forall>a<length (instances s). inst_model (instances s' ! a) = inst_model (instances s ! a)) \<and>
     (\<forall>a rn xs. getattr_collection s a rn = Some xs \<longrightarrow>
        (\<exists>ys. getattr_collection s' a rn = Some (xs @ ys))) \<and>
     (\<forall>a k b. a < length (instances s) \<and>
        map_of (inst_attrs (instances s ! a)) k = Some (Ref b) \<longrightarrow>
        map_of (inst_attrs (instances s' ! a)) k = Some (Ref b))"

text \<open>
  The session invariant: the instance registry and the materialised instances
  correspond one to one, each instance being registered under the table name of its
  class.
\<close>

definition session_inv :: "state \<Rightarrow> bool" where
  "session_inv s \<longleftrightarrow>
     (\<forall>k a. model_instance_registry s k = Some a \<longrightarrow>
        a < length (instances s) \<and> tablename (classes s (inst_model (instances s ! a))) = Some k) \<and>
     (\<forall>a<length (instances s). \<exists>k. model_instance_registry s k = Some a)"

text \<open>
  Two conditions on a schema. The tables are well-formed when each model that
  \<^verbatim>\<open>tables_to_models\<close> holds under a name has that name as the fullname of its table (a
  relationship's target is looked up by fullname). No relationship is inferred when in
  every class each foreign-key column is covered or lacks the suffix.
\<close>

definition wf_tables :: "env \<Rightarrow> state \<Rightarrow> bool" where
  "wf_tables e s \<longleftrightarrow> (\<forall>t c. tables_to_models e t = Some c \<longrightarrow> fullname (classes s c) = t)"

definition no_inferred_relationships :: "state \<Rightarrow> bool" where
  "no_inferred_relationships s \<longleftrightarrow>
     (\<forall>c rc. relation_cols (relationships (classes s c)) = Inr rc \<longrightarrow>
        inferred_relationships rc (columns (classes s c)) = [])"

subsection \<open>Example schemas\<close>

text \<open>A table with a foreign key to itself, \<^verbatim>\<open>parent_id\<close>, and no declared relationship.\<close>

definition node_cls :: model where
  "node_cls =
     \<lparr> cls_name = ''Node'', tablename = Some ''node'', fullname = ''node'',
       columns =
         [\<lparr> col_key = ''id'', col_name = ''id'', foreign_keys = [], col_type = Integer,
            primary_key = True \<rparr>,
          \<lparr> col_key = ''parent_id'', col_name = ''parent_id'', foreign_keys = [''node''],
            col_type = Integer, primary_key = False \<rparr>],
       relationships = [], serialize_rules = None, cls_attrs = [] \<rparr>"

definition node_env :: env where
  "node_env = factory_generator (\<lambda>_. node_cls) [0] None"

text \<open>
  A parent and a child table: \<open>Pipeline\<close> declares the collection \<^verbatim>\<open>jobs\<close>; \<open>Job\<close> has
  the foreign key \<^verbatim>\<open>pipeline_id\<close> and declares no relationship. The override is the one
  the test module passes for \<^verbatim>\<open>job\<close>.
\<close>

definition pipeline_cls :: model where
  "pipeline_cls =
     \<lparr> cls_name = ''Pipeline'', tablename = Some ''pipeline'', fullname = ''pipeline'',
       columns =
         [\<lparr> col_key = ''id'', col_name = ''id'', foreign_keys = [], col_type = Integer,
            primary_key = True \<rparr>],
       relationships =
         [\<lparr> rel_key = ''jobs'', local_columns = [''id''], target = ''job'', uselist = True \<rparr>],
       serialize_rules = None, cls_attrs = [] \<rparr>"

definition job_cls :: model where
  "job_cls =
     \<lparr> cls_name = ''Job'', tablename = Some ''job'', fullname = ''job'',
       columns =
         [\<lparr> col_key = ''id'', col_name = ''id'', foreign_keys = [], col_type = Integer,
            primary_key = True \<rparr>,
          \<lparr> col_key = ''pipeline_id'', col_name = ''pipeline_id'', foreign_keys = [''pipeline''],
            col_type = Integer, primary_key = False \<rparr>,
          \<lparr> col_key = ''status'', col_name = ''status'', foreign_keys = [],
            col_type = String None, primary_key = False \<rparr>],
       relationships = [],
       serialize_rules = Some [''-secret''], cls_attrs = [] \<rparr>"

definition ci_classes :: "cls_ref \<Rightarrow> model" where
  "ci_classes = (\<lambda>_. pipeline_cls)(1 := job_cls)"

definition ci_overrides :: "string \<rightharpoonup> (string \<rightharpoonup> attribute)" where
  "ci_overrides = [''job'' \<mapsto> [''status'' \<mapsto> Val (PyStr ''RUNNING'')]]"

definition ci_env :: env where
  "ci_env = factory_generator ci_classes [1, 0] (Some ci_overrides)"

text \<open>The factories that building \<open>Pipeline\<close> in a fresh session creates, in this order.\<close>

definition pipeline_factory_inner :: factory where
  "pipeline_factory_inner =
     Factory 0 ''Pipeline'' [(''id'', Faker ''random_int'' []), (''Meta'', Meta 0)]"

definition job_factory :: factory where
  "job_factory =
     Factory 1 ''Job''
       [(''id'', Faker ''random_int'' []),
        (''pipeline_id'', Faker ''random_int'' []),
        (''status'', Val (PyStr ''RUNNING'')),
        (''pipeline'', SubFactory pipeline_factory_inner),
        (''Meta'', Meta 1)]"

definition pipeline_factory :: factory where
  "pipeline_factory =
     Factory 2 ''Pipeline''
       [(''id'', Faker ''random_int'' []),
        (''jobs'', PostGeneration job_factory ''jobs''),
        (''Meta'', Meta 0)]"

text \<open>
  A table with a foreign key that does not follow the naming convention (\<^verbatim>\<open>owner\<close>, to
  a table no model maps) and a column of a type without provider (\<^verbatim>\<open>notes\<close>).
\<close>

definition task_cls :: model where
  "task_cls =
     \<lparr> cls_name = ''Task'', tablename = Some ''task'', fullname = ''task'',
       columns =
         [\<lparr> col_key = ''id'', col_name = ''id'', foreign_keys = [], col_type = Integer,
            primary_key = True \<rparr>,
          \<lparr> col_key = ''retries'', col_name = ''retries'', foreign_keys = [], col_type = Integer,
            primary_key = False \<rparr>,
          \<lparr> col_key = ''owner'', col_name = ''owner'', foreign_keys = [''account''],
            col_type = Integer, primary_key = False \<rparr>,
          \<lparr> col_key = ''notes'', col_name = ''notes'', foreign_keys = [],
            col_type = OtherType ''Text'', primary_key = False \<rparr>],
       relationships = [], serialize_rules = None, cls_attrs = [] \<rparr>"

definition task_overrides :: "string \<rightharpoonup> (string \<rightharpoonup> attribute)" where
  "task_overrides = [''task'' \<mapsto> [''retries'' \<mapsto> Val (PyInt 0), ''notes'' \<mapsto> Val (PyStr ''n/a'')]]"

definition task_env :: env where
  "task_env = factory_generator (\<lambda>_. task_cls) [0] (Some task_overrides)"

definition task_env_plain :: env where
  "task_env_plain = factory_generator (\<lambda>_. task_cls) [0] None"

text \<open>The factory built for \<open>Task\<close> under \<open>task_env\<close>.\<close>

definition task_factory :: factory where
  "task_factory =
     Factory 0 ''Task''
       [(''id'', Faker ''random_int'' []),
        (''retries'', Faker ''random_int'' []),
        (''notes'', Val (PyStr ''n/a'')),
        (''Meta'', Meta 0)]"

text \<open>
  A table whose declared relationship \<^verbatim>\<open>line\<close> joins on two local columns.
\<close>

definition shipment_cls :: model where
  "shipment_cls =
     \<lparr> cls_name = ''Shipment'', tablename = Some ''shipment'', fullname = ''shipment'',
       columns =
         [\<lparr> col_key = ''id'', col_name = ''id'', foreign_keys = [], col_type = Integer,
            primary_key = True \<rparr>,
          \<lparr> col_key = ''order_id'', col_name = ''order_id'', foreign_keys = [''order_line''],
            col_type = Integer, primary_key = False \<rparr>,
          \<lparr> col_key = ''order_line_id'', col_name = ''order_line_id'', foreign_keys = [''order_line''],
            col_type = Integer, primary_key = False \<rparr>,
          \<lparr> col_key = ''carrier_id'', col_name = ''carrier_id'', foreign_keys = [''carrier''],
            col_type = Integer, primary_key = False \<rparr>],
       relationships =
         [\<lparr> rel_key = ''line'', local_columns = [''order_id'', ''order_line_id''],
            target = ''order_line'', uselist = False \<rparr>],
       serialize_rules = None, cls_attrs = [] \<rparr>"

definition shipment_env :: env where
  "shipment_env = factory_generator (\<lambda>_. shipment_cls) [0] None"

text \<open>
  A parent and a child table that declare both directions: the collection
  \<^verbatim>\<open>members\<close> on \<open>Team\<close> and the reference \<^verbatim>\<open>team\<close> on \<open>Member\<close>.
\<close>

definition team_cls :: model where
  "team_cls =
     \<lparr> cls_name = ''Team'', tablename = Some ''team'', fullname = ''team'',
       columns =
         [\<lparr> col_key = ''id'', col_name = ''id'', foreign_keys = [], col_type = Integer,
            primary_key = True \<rparr>],
       relationships =
         [\<lparr> rel_key = ''members'', local_columns = [''id''], target = ''member'', uselist = True \<rparr>],
       serialize_rules = None, cls_attrs = [] \<rparr>"

definition member_cls :: model where
  "member_cls =
     \<lparr> cls_name = ''Member'', tablename = Some ''member'', fullname = ''member'',
       columns =
         [\<lparr> col_key = ''id'', col_name = ''id'', foreign_keys = [], col_type = Integer,
            primary_key = True \<rparr>,
          \<lparr> col_key = ''team_id'', col_name = ''team_id'', foreign_keys = [''team''],
            col_type = Integer, primary_key = False \<rparr>],
       relationships =
         [\<lparr> rel_key = ''team'', local_columns = [''team_id''], target = ''team'', uselist = False \<rparr>],
       serialize_rules = None, cls_attrs = [] \<rparr>"

definition team_classes :: "cls_ref \<Rightarrow> model" where
  "team_classes = (\<lambda>_. team_cls)(1 := member_cls)"

definition team_env :: env where
  "team_env = factory_generator team_classes [1, 0] None"

text \<open>The same schema with an override on the covered foreign-key column \<^verbatim>\<open>team_id\<close>.\<close>

definition team_overrides :: "string \<rightharpoonup> (string \<rightharpoonup> attribute)" where
  "team_overrides = [''member'' \<mapsto> [''team_id'' \<mapsto> Val (PyInt 7)]]"

definition team_env_overridden :: env where
  "team_env_overridden = factory_generator team_classes [1, 0] (Some team_overrides)"

text \<open>The factories that building \<open>Team\<close> in a fresh session creates, in this order.\<close>

definition member_factory :: factory where
  "member_factory =
     Factory 0 ''Member'' [(''id'', Faker ''random_int'' []), (''Meta'', Meta 1)]"

definition team_factory :: factory where
  "team_factory =
     Factory 1 ''Team''
       [(''id'', Faker ''random_int'' []),
        (''members'', PostGeneration member_factory ''members''),
        (''Meta'', Meta 0)]"

text \<open>The session in which \<open>Team\<close> has been built, and the same after one invocation of
  its factory.\<close>

definition team_session :: state where
  "team_session = snd (make_factory team_env (Suc (Suc 0)) (new_session team_classes) 0 {})"

definition team_session_invoked :: state where
  "team_session_invoked = snd (call_factory CREATE_STRATEGY team_factory team_session)"





text \<open>The schema of \<open>Job\<close> when the module holds no model for \<^verbatim>\<open>pipeline\<close>.\<close>

definition job_only_env :: env where
  "job_only_env = factory_generator ci_classes [1] None"

text \<open>The session in which \<open>Job\<close> has been built under \<open>ci_env\<close>.\<close>

definition ci_job_session :: state where
  "ci_job_session = snd (make_factory ci_env (Suc (Suc 0)) (new_session ci_classes) 1 {})"

section \<open>Properties\<close>

subsection \<open>Basic facts\<close>

lemma new_session_sel:
  "classes (new_session cs) = cs"
  "factory_registry (new_session cs) = Map.empty"
  "model_instance_registry (new_session cs) = Map.empty"
  "instances (new_session cs) = []"
  "next_fid (new_session cs) = 0"
  "draws (new_session cs) = 0"
  by (simp_all add: new_session_def)

lemma node_env_tables: "tables_to_models node_env ''node'' = Some 0"
  by (simp add: node_env_def factory_generator_def node_cls_def)

lemma node_column_loop:
  "column_loop node_env ''node'' {} (columns node_cls) [] [] =
     Inr ([(''id'', Faker ''random_int'' []), (''parent_id'', Faker ''random_int'' [])],
          [\<lparr> foreign_table_name = ''node'', relation_name = ''parent'' \<rparr>])"
  by (simp add: node_cls_def fk_skipped_def last3_def strip3_def column_attribute_def
      get_override_def provide_def node_env_def factory_generator_def)

lemmas eval_defs =
  factory_generator_def new_session_def fk_skipped_def last3_def strip3_def
  column_attribute_def get_override_def provide_def register_factory_def add_relationship_def
  generate_many_to_one_def Let_def

lemmas ci_defs = ci_env_def ci_classes_def ci_overrides_def pipeline_cls_def job_cls_def

subsection \<open>Termination on cyclic schemas\<close>

text \<open>
  C1 (termination on every finite schema graph, self-references included). The claim
  fails for an inferred self-reference: the loop over the inferred relationships calls
  \<^verbatim>\<open>make_factory\<close> without consulting \<^verbatim>\<open>processed_tables\<close>, and the table is registered
  only at the end of the call. For the model \<open>Node\<close>, whose column \<^verbatim>\<open>parent_id\<close> refers
  to its own table, the build started in a fresh session raises RecursionError whatever
  the depth bound is, and whatever visited set it is given. With declared relationships
  only, the build does end within a depth of the number of tables
  (\<open>make_factory_terminates_declared\<close> below).
\<close>

theorem make_factory_inferred_self_reference_diverges:
  "make_factory node_env n (new_session (\<lambda>_. node_cls)) 0 processed_tables =
     (Inl RecursionError, new_session (\<lambda>_. node_cls))"
proof (induction n arbitrary: processed_tables)
  case 0
  show ?case by simp
next
  case (Suc n)
  have sel: "fullname node_cls = ''node''" "relationships node_cls = []"
    by (simp_all add: node_cls_def)
  show ?case
    by (simp add: Suc new_session_sel node_env_tables node_column_loop sel)
qed

subsection \<open>The visited set\<close>

text \<open>
  C4 (a relationship whose target is in the visited set is never recursed into, declared
  and inferred alike). The claim fails for inferred relationships. \<open>Job\<close> is built here
  with \<^verbatim>\<open>pipeline\<close> in the visited set, as the build of \<open>Pipeline\<close> calls it for the
  collection \<^verbatim>\<open>jobs\<close>: the inferred relationship \<^verbatim>\<open>pipeline\<close> is recursed into all the
  same, a factory for \<open>Pipeline\<close> is built and registered, and the edge is wired as a
  sub-factory. The loop over the declared relationships does pass over a visited target
  (\<open>wire_relationships_visited\<close> below).
\<close>

theorem make_factory_inferred_target_in_visited_set:
  "fst (make_factory ci_env (Suc (Suc n)) (new_session ci_classes) 1 {''pipeline''})
     = Inr job_factory \<and>
   map_of (fattrs job_factory) ''pipeline'' = Some (SubFactory pipeline_factory_inner) \<and>
   factory_registry (snd (make_factory ci_env (Suc (Suc n)) (new_session ci_classes) 1 {''pipeline''}))
     ''pipeline'' = Some pipeline_factory_inner"
  by (simp add: eval_defs ci_defs job_factory_def pipeline_factory_inner_def)

subsection \<open>The factory registry\<close>

text \<open>A registered factory is returned as it is, and nothing is written.\<close>

lemma make_factory_registered:
  "factory_registry s (fullname (classes s model)) = Some f \<Longrightarrow>
   make_factory e (Suc n) s model processed_tables = (Inr f, s)"
  by simp

text \<open>
  C6 (the registry is a permanent memoization; a factory once registered is never
  rebuilt). The lookup at the head of \<^verbatim>\<open>make_factory\<close> does return a registered factory
  (\<open>make_factory_registered\<close>), but the entry is not permanent: one build of \<open>Pipeline\<close>
  in a fresh session registers a first factory for \<^verbatim>\<open>pipeline\<close> while \<open>Job\<close> is being
  built, and replaces it by a second one at its end. The factory of \<open>Job\<close> keeps the
  first as its sub-factory. What no call replaces is an entry that was there when the
  call started (\<open>make_factory_keeps_registered\<close> below).
\<close>

theorem make_factory_registry_entry_replaced:
  "factory_registry (snd (make_factory ci_env (Suc (Suc n)) (new_session ci_classes) 1 {''pipeline''}))
     ''pipeline'' = Some pipeline_factory_inner \<and>
   make_factory ci_env (Suc (Suc (Suc n))) (new_session ci_classes) 0 {}
     = (Inr pipeline_factory,
        snd (make_factory ci_env (Suc (Suc (Suc n))) (new_session ci_classes) 0 {})) \<and>
   factory_registry (snd (make_factory ci_env (Suc (Suc (Suc n))) (new_session ci_classes) 0 {}))
     ''pipeline'' = Some pipeline_factory \<and>
   factory_registry (snd (make_factory ci_env (Suc (Suc (Suc n))) (new_session ci_classes) 0 {}))
     ''job'' = Some job_factory \<and>
   map_of (fattrs job_factory) ''pipeline'' = Some (SubFactory pipeline_factory_inner) \<and>
   fid pipeline_factory_inner \<noteq> fid pipeline_factory"
  by (simp add: eval_defs ci_defs job_factory_def pipeline_factory_inner_def pipeline_factory_def)

subsection \<open>The loop over the columns\<close>

lemma relation_cols_first:
  "relation_cols rels = Inr rc \<Longrightarrow> rc = first_local_columns rels"
  by (induction rels arbitrary: rc)
     (auto simp: first_local_columns_def split: list.splits sum.splits)

lemma relation_cols_nonempty:
  "relation_cols rels = Inr rc \<Longrightarrow> r \<in> set rels \<Longrightarrow> local_columns r \<noteq> []"
  by (induction rels arbitrary: rc) (auto split: list.splits sum.splits)

lemma column_loop_dynamic:
  "column_loop e tn rc cols fa dr = Inr (fa', dr') \<Longrightarrow> dr' = dr @ inferred_relationships rc cols"
proof (induction cols arbitrary: fa dr)
  case Nil
  then show ?case by (simp add: inferred_relationships_def)
next
  case (Cons col cols)
  show ?case
  proof (cases "fk_skipped rc col")
    case True
    with Cons.prems have "column_loop e tn rc cols fa dr = Inr (fa', dr')" by simp
    from Cons.IH[OF this] True show ?thesis
      by (auto simp: inferred_relationships_def fk_skipped_def)
  next
    case False
    with Cons.prems obtain a where
      a: "column_attribute e tn col = Inr a" and
      rest: "column_loop e tn rc cols (AList.update (col_name col) a fa)
               (case foreign_keys col of [] \<Rightarrow> dr
                | fk # _ \<Rightarrow> dr @ [\<lparr> foreign_table_name = fk, relation_name = strip3 (col_key col) \<rparr>])
             = Inr (fa', dr')"
      by (auto simp: Let_def split: sum.splits)
    from Cons.IH[OF rest] False show ?thesis
      by (auto simp: inferred_relationships_def fk_skipped_def split: list.splits)
  qed
qed

lemma column_loop_frame:
  "column_loop e tn rc cols fa dr = Inr (fa', dr') \<Longrightarrow>
   k \<notin> col_name ` {c \<in> set cols. \<not> fk_skipped rc c} \<Longrightarrow> map_of fa' k = map_of fa k"
proof (induction cols arbitrary: fa dr)
  case Nil
  then show ?case by simp
next
  case (Cons col cols)
  show ?case
  proof (cases "fk_skipped rc col")
    case True
    with Cons.prems show ?thesis by (auto intro: Cons.IH)
  next
    case False
    with Cons.prems(1) obtain a dr1 where
      rest: "column_loop e tn rc cols (AList.update (col_name col) a fa) dr1 = Inr (fa', dr')"
      by (auto simp: Let_def split: sum.splits)
    from Cons.prems(2) False have k: "k \<noteq> col_name col"
      "k \<notin> col_name ` {c \<in> set cols. \<not> fk_skipped rc c}" by auto
    from Cons.IH[OF rest k(2)] k(1) show ?thesis
      by (simp add: update_conv')
  qed
qed

lemma column_loop_assigns:
  "column_loop e tn rc cols fa dr = Inr (fa', dr') \<Longrightarrow> distinct (map col_name cols) \<Longrightarrow>
   col \<in> set cols \<Longrightarrow> \<not> fk_skipped rc col \<Longrightarrow>
   \<exists>a. column_attribute e tn col = Inr a \<and> map_of fa' (col_name col) = Some a"
proof (induction cols arbitrary: fa dr)
  case Nil
  then show ?case by simp
next
  case (Cons c cols)
  show ?case
  proof (cases "fk_skipped rc c")
    case True
    with Cons.prems have "col \<in> set cols" "column_loop e tn rc cols fa dr = Inr (fa', dr')"
      by auto
    with Cons.IH[of fa dr] Cons.prems show ?thesis by auto
  next
    case False
    with Cons.prems(1) obtain a dr1 where
      a: "column_attribute e tn c = Inr a" and
      rest: "column_loop e tn rc cols (AList.update (col_name c) a fa) dr1 = Inr (fa', dr')"
      by (auto simp: Let_def split: sum.splits)
    show ?thesis
    proof (cases "col = c")
      case True
      from Cons.prems(2) have "col_name c \<notin> col_name ` {x \<in> set cols. \<not> fk_skipped rc x}"
        by auto
      from column_loop_frame[OF rest this] a True show ?thesis
        by (simp add: update_conv')
    next
      case False
      with Cons.prems have "col \<in> set cols" "distinct (map col_name cols)" by auto
      from Cons.IH[OF rest this(2) this(1) Cons.prems(4)] show ?thesis .
    qed
  qed
qed

lemma column_loop_skips:
  "column_loop e tn rc cols [] [] = Inr (fa', dr') \<Longrightarrow> distinct (map col_name cols) \<Longrightarrow>
   col \<in> set cols \<Longrightarrow> fk_skipped rc col \<Longrightarrow> map_of fa' (col_name col) = None"
proof -
  assume a: "column_loop e tn rc cols [] [] = Inr (fa', dr')" "distinct (map col_name cols)"
    "col \<in> set cols" "fk_skipped rc col"
  have "col_name col \<notin> col_name ` {c \<in> set cols. \<not> fk_skipped rc c}"
  proof
    assume "col_name col \<in> col_name ` {c \<in> set cols. \<not> fk_skipped rc c}"
    then obtain c where c: "c \<in> set cols" "\<not> fk_skipped rc c" "col_name c = col_name col" by auto
    with a(2,3) have "c = col" by (meson distinct_map inj_onD)
    with c a(4) show False by simp
  qed
  from column_loop_frame[OF a(1) this] show ?thesis by simp
qed

lemma column_loop_override:
  "column_loop e tn rc cols fa dr = Inr (fa', dr') \<Longrightarrow>
   get_override e tn k = Some ov \<Longrightarrow> truthy ov \<Longrightarrow>
   map_of fa k = Some ov \<or> (\<exists>c\<in>set cols. col_name c = k \<and> \<not> fk_skipped rc c) \<Longrightarrow>
   map_of fa' k = Some ov"
proof (induction cols arbitrary: fa dr)
  case Nil
  then show ?case by simp
next
  case (Cons c cols)
  show ?case
  proof (cases "fk_skipped rc c")
    case True
    with Cons.prems have "column_loop e tn rc cols fa dr = Inr (fa', dr')"
      "map_of fa k = Some ov \<or> (\<exists>c\<in>set cols. col_name c = k \<and> \<not> fk_skipped rc c)" by auto
    from Cons.IH[OF this(1) Cons.prems(2,3) this(2)] show ?thesis .
  next
    case False
    with Cons.prems(1) obtain a dr1 where
      a: "column_attribute e tn c = Inr a" and
      rest: "column_loop e tn rc cols (AList.update (col_name c) a fa) dr1 = Inr (fa', dr')"
      by (auto simp: Let_def split: sum.splits)
    have "map_of (AList.update (col_name c) a fa) k = Some ov \<or>
          (\<exists>c\<in>set cols. col_name c = k \<and> \<not> fk_skipped rc c)"
    proof (cases "col_name c = k")
      case True
      with a Cons.prems(2,3) have "a = ov" by (simp add: column_attribute_def)
      with True show ?thesis by (simp add: update_conv')
    next
      case False
      with Cons.prems(4) show ?thesis by (auto simp: update_conv')
    qed
    from Cons.IH[OF rest Cons.prems(2,3) this] show ?thesis .
  qed
qed

lemma column_loop_no_provider:
  "col \<in> set cols \<Longrightarrow> \<not> fk_skipped rc col \<Longrightarrow>
   \<not> (\<exists>ov. get_override e tn (col_name col) = Some ov \<and> truthy ov) \<Longrightarrow>
   data_providers (col_type col) = None \<Longrightarrow>
   column_loop e tn rc cols fa dr = Inl KeyError"
proof (induction cols arbitrary: fa dr)
  case Nil
  then show ?case by simp
next
  case (Cons c cols)
  have err: "\<And>x. column_attribute e tn x = Inl er \<Longrightarrow> er = KeyError" for er
    by (auto simp: column_attribute_def provide_def split: option.splits if_splits)
  show ?case
  proof (cases "col = c")
    case True
    with Cons.prems have "column_attribute e tn c = Inl KeyError"
      by (auto simp: column_attribute_def provide_def split: option.splits)
    with True Cons.prems show ?thesis by simp
  next
    case False
    with Cons.prems have "col \<in> set cols" by simp
    from Cons.IH[OF this Cons.prems(2,3,4)] show ?thesis
      by (auto simp: Let_def split: sum.splits dest: err)
  qed
qed

subsection \<open>The loops over the relationships\<close>

lemma wire_relationships_frame:
  "wire_relationships rec e P rels fa s = (Inr fa', s') \<Longrightarrow> k \<notin> rel_key ` set rels \<Longrightarrow>
   map_of fa' k = map_of fa k"
proof (induction rels arbitrary: fa s)
  case Nil
  then show ?case by simp
next
  case (Cons r rels)
  show ?case
  proof (cases "target r \<in> P")
    case True
    with Cons.prems show ?thesis by (auto intro: Cons.IH)
  next
    case False
    with Cons.prems(1) obtain ff s1 where
      rest: "wire_relationships rec e P rels
               (AList.update (rel_key r)
                  (if \<not> uselist r then SubFactory ff else generate_many_to_one ff (rel_key r)) fa) s1
             = (Inr fa', s')"
      by (auto split: option.splits sum.splits prod.splits)
    from Cons.prems(2) have "k \<noteq> rel_key r" "k \<notin> rel_key ` set rels" by auto
    with Cons.IH[OF rest] show ?thesis by (simp add: update_conv')
  qed
qed

lemma wire_dynamic_frame:
  "wire_dynamic rec e P model ds fa s = (Inr fa', s') \<Longrightarrow> k \<notin> relation_name ` set ds \<Longrightarrow>
   map_of fa' k = map_of fa k"
proof (induction ds arbitrary: fa s)
  case Nil
  then show ?case by simp
next
  case (Cons d ds)
  from Cons.prems(1) obtain fm ff s1 where
    rest: "wire_dynamic rec e P model ds
             (AList.update (relation_name d) (SubFactory ff) fa)
             (add_relationship model (relation_name d) (cls_name (classes s1 fm)) s1)
           = (Inr fa', s')"
    by (auto split: option.splits sum.splits prod.splits)
  from Cons.prems(2) have "k \<noteq> relation_name d" "k \<notin> relation_name ` set ds" by auto
  with Cons.IH[OF rest] show ?case by (simp add: update_conv')
qed

lemma wire_relationships_unknown_target:
  "r \<in> set rels \<Longrightarrow> target r \<notin> P \<Longrightarrow> tables_to_models e (target r) = None \<Longrightarrow>
   \<exists>err. fst (wire_relationships rec e P rels fa s) = Inl err"
proof (induction rels arbitrary: fa s)
  case Nil
  then show ?case by simp
next
  case (Cons x rels)
  show ?case
  proof (cases "r = x")
    case True
    with Cons.prems show ?thesis by simp
  next
    case False
    with Cons.prems have "r \<in> set rels" by simp
    from Cons.IH[OF this Cons.prems(2,3)] show ?thesis
      by (auto split: option.splits sum.splits prod.splits)
  qed
qed

lemma wire_dynamic_unknown_target:
  "d \<in> set ds \<Longrightarrow> tables_to_models e (foreign_table_name d) = None \<Longrightarrow>
   \<exists>err. fst (wire_dynamic rec e P model ds fa s) = Inl err"
proof (induction ds arbitrary: fa s)
  case Nil
  then show ?case by simp
next
  case (Cons x ds)
  show ?case
  proof (cases "d = x")
    case True
    with Cons.prems show ?thesis by simp
  next
    case False
    with Cons.prems have "d \<in> set ds" by simp
    from Cons.IH[OF this Cons.prems(2)] show ?thesis
      by (auto split: option.splits sum.splits prod.splits)
  qed
qed

text \<open>Unfolding a successful, non-cached call.\<close>

lemma make_factory_SucE:
  assumes "make_factory e n s model P = (Inr f, s')"
    and "factory_registry s (fullname (classes s model)) = None"
  obtains n' rc fa dr fa1 s1 fa2 s2 where
    "n = Suc n'"
    "relation_cols (relationships (classes s model)) = Inr rc"
    "column_loop e (fullname (classes s model)) rc (columns (classes s model)) [] [] = Inr (fa, dr)"
    "wire_relationships (make_factory e n') e (insert (fullname (classes s model)) P)
       (relationships (classes s model)) fa s = (Inr fa1, s1)"
    "wire_dynamic (make_factory e n') e (insert (fullname (classes s model)) P) model dr fa1 s1
       = (Inr fa2, s2)"
    "register_factory model fa2 s2 = (Inr f, s')"
proof (cases n)
  case 0
  with assms show ?thesis by simp
next
  case (Suc n')
  with assms show ?thesis
    by (auto simp: Let_def split: option.splits sum.splits prod.splits intro: that)
qed

subsection \<open>Mutation of the model classes\<close>

lemma class_extends_refl: "class_extends m m"
  by (auto simp: class_extends_def split: option.splits)

lemma class_extends_trans:
  "class_extends m1 m2 \<Longrightarrow> class_extends m2 m3 \<Longrightarrow> class_extends m1 m3"
  by (cases "serialize_rules m1") (auto simp: class_extends_def)

lemma build_extends_refl: "build_extends s s"
  by (simp add: build_extends_def class_extends_refl)

lemma build_extends_trans:
  assumes "build_extends s1 s2" "build_extends s2 s3"
  shows "build_extends s1 s3"
proof -
  have "\<forall>c. class_extends (classes s1 c) (classes s3 c)"
    using assms unfolding build_extends_def by (blast intro: class_extends_trans)
  with assms show ?thesis unfolding build_extends_def by simp
qed

lemma add_relationship_class:
  "class_extends (classes s c) (classes (add_relationship model rn nm s) c)"
  by (cases "serialize_rules (classes s model)")
     (auto simp: add_relationship_def class_extends_def Let_def dom_update split: option.splits)

lemma add_relationship_frame:
  "factory_registry (add_relationship model rn nm s) = factory_registry s"
  "model_instance_registry (add_relationship model rn nm s) = model_instance_registry s"
  "instances (add_relationship model rn nm s) = instances s"
  "draws (add_relationship model rn nm s) = draws s"
  by (simp_all add: add_relationship_def Let_def)

lemma add_relationship_extends: "build_extends s (add_relationship model rn nm s)"
  by (simp add: build_extends_def add_relationship_class add_relationship_frame)

lemma add_relationship_attr:
  "map_of (cls_attrs (classes (add_relationship model rn nm s) model)) rn = Some (Relationship nm)"
  by (cases "serialize_rules (classes s model)")
     (simp_all add: add_relationship_def Let_def update_conv')

lemma add_relationship_rules:
  "serialize_rules (classes s model) = Some rules \<Longrightarrow>
   serialize_rules (classes (add_relationship model rn nm s) model) = Some (rules @ [''-'' @ rn])"
  by (simp add: add_relationship_def Let_def)

lemma register_factory_classes:
  "classes (snd (register_factory model fa s)) = classes s"
  by (simp add: register_factory_def Let_def)

lemma wire_relationships_extends:
  assumes rec: "\<And>s m P. build_extends s (snd (rec s m P))"
  shows "build_extends s (snd (wire_relationships rec e P rels fa s))"
proof (induction rels arbitrary: fa s)
  case Nil
  show ?case by (simp add: build_extends_refl)
next
  case (Cons r rels)
  show ?case
  proof (cases "target r \<in> P")
    case True
    then show ?thesis by (simp add: Cons.IH)
  next
    case False
    show ?thesis
    proof (cases "tables_to_models e (target r)")
      case None
      with False show ?thesis by (simp add: build_extends_refl)
    next
      case (Some fm)
      obtain res s1 where r1: "rec s fm P = (res, s1)" by (cases "rec s fm P")
      with rec[of s fm P] have ext: "build_extends s s1" by simp
      show ?thesis
      proof (cases res)
        case (Inl err)
        with False Some r1 ext show ?thesis by simp
      next
        case (Inr ff)
        with False Some r1 show ?thesis
          by (auto intro: build_extends_trans[OF ext Cons.IH])
      qed
    qed
  qed
qed

lemma wire_dynamic_extends:
  assumes rec: "\<And>s m P. build_extends s (snd (rec s m P))"
  shows "build_extends s (snd (wire_dynamic rec e P model ds fa s))"
proof (induction ds arbitrary: fa s)
  case Nil
  show ?case by (simp add: build_extends_refl)
next
  case (Cons d ds)
  show ?case
  proof (cases "tables_to_models e (foreign_table_name d)")
    case None
    then show ?thesis by (simp add: build_extends_refl)
  next
    case (Some fm)
    obtain res s1 where r1: "rec s fm P = (res, s1)" by (cases "rec s fm P")
    with rec[of s fm P] have ext: "build_extends s s1" by simp
    show ?thesis
    proof (cases res)
      case (Inl err)
      with Some r1 ext show ?thesis by simp
    next
      case (Inr ff)
      have "build_extends s (add_relationship model (relation_name d) (cls_name (classes s1 fm)) s1)"
        by (rule build_extends_trans[OF ext add_relationship_extends])
      from build_extends_trans[OF this Cons.IH] Inr Some r1 show ?thesis by simp
    qed
  qed
qed

lemma make_factory_extends: "build_extends s (snd (make_factory e n s model P))"
proof (induction n arbitrary: s model P)
  case 0
  show ?case by (simp add: build_extends_refl)
next
  case (Suc n)
  let ?m = "classes s model"
  let ?P = "insert (fullname ?m) P"
  show ?case
  proof (cases "factory_registry s (fullname ?m)")
    case (Some f)
    then show ?thesis by (simp add: build_extends_refl)
  next
    case None
    show ?thesis
    proof (cases "relation_cols (relationships ?m)")
      case (Inl err)
      with None show ?thesis by (simp add: build_extends_refl)
    next
      case (Inr rc)
      show ?thesis
      proof (cases "column_loop e (fullname ?m) rc (columns ?m) [] []")
        case (Inl err)
        with None Inr show ?thesis by (simp add: build_extends_refl)
      next
        case cl: (Inr fadr)
        obtain fa dr where fadr: "fadr = (fa, dr)" by (cases fadr)
        obtain r1 s1 where w1:
          "wire_relationships (make_factory e n) e ?P (relationships ?m) fa s = (r1, s1)"
          by (cases "wire_relationships (make_factory e n) e ?P (relationships ?m) fa s")
        have e1: "build_extends s s1"
          using wire_relationships_extends[where rec="make_factory e n" and s=s and e=e and P="?P"
              and rels="relationships ?m" and fa=fa, OF Suc.IH] w1
          by simp
        show ?thesis
        proof (cases r1)
          case (Inl err)
          with None Inr cl fadr w1 e1 show ?thesis by simp
        next
          case fa1: (Inr fa1)
          obtain r2 s2 where w2:
            "wire_dynamic (make_factory e n) e ?P model dr fa1 s1 = (r2, s2)"
            by (cases "wire_dynamic (make_factory e n) e ?P model dr fa1 s1")
          have e2: "build_extends s1 s2"
            using wire_dynamic_extends[where rec="make_factory e n" and s=s1 and e=e and P="?P"
                and model=model and ds=dr and fa=fa1, OF Suc.IH] w2
            by simp
          show ?thesis
          proof (cases r2)
            case (Inl err)
            with None Inr cl fadr w1 fa1 w2 build_extends_trans[OF e1 e2] show ?thesis by simp
          next
            case fa2: (Inr fa2)
            have e12: "build_extends s s2" by (rule build_extends_trans[OF e1 e2])
            then have "fullname (classes s2 model) = fullname ?m"
              by (simp add: build_extends_def class_extends_def)
            with None e12 have "build_extends s (snd (register_factory model fa2 s2))"
              by (auto simp: build_extends_def register_factory_def Let_def)
            with None Inr cl fadr w1 fa1 w2 fa2 show ?thesis by simp
          qed
        qed
      qed
    qed
  qed
qed

text \<open>
  What a build leaves in place: a factory registered when a call starts is still
  registered, unchanged, when the call ends; the instances and their registry are not
  touched; and the session invariant is kept.
\<close>

lemma make_factory_keeps_registered:
  "factory_registry s t = Some g \<Longrightarrow>
   factory_registry (snd (make_factory e n s model P)) t = Some g"
  using make_factory_extends[of s e n model P] by (simp add: build_extends_def)

lemma make_factory_keeps_instances:
  "instances (snd (make_factory e n s model P)) = instances s"
  "model_instance_registry (snd (make_factory e n s model P)) = model_instance_registry s"
  using make_factory_extends[of s e n model P] by (simp_all add: build_extends_def)

lemma session_inv_make_factory:
  assumes "session_inv s"
  shows "session_inv (snd (make_factory e n s model P))"
proof -
  have "tablename (classes (snd (make_factory e n s model P)) c) = tablename (classes s c)" for c
    using make_factory_extends[of s e n model P] by (simp add: build_extends_def class_extends_def)
  with assms show ?thesis
    by (simp add: session_inv_def make_factory_keeps_instances)
qed

text \<open>The guard of the declared loop: relationships into the visited set are passed over.\<close>

lemma wire_relationships_visited:
  "\<forall>r\<in>set rels. target r \<in> P \<Longrightarrow> wire_relationships rec e P rels fa s = (Inr fa, s)"
  by (induction rels) simp_all

lemma wire_dynamic_effect:
  assumes rec: "\<And>s m P. build_extends s (snd (rec s m P))"
  shows "wire_dynamic rec e P model ds fa s = (Inr fa', s') \<Longrightarrow> d \<in> set ds \<Longrightarrow>
    (\<exists>c. map_of (cls_attrs (classes s' model)) (relation_name d) = Some (Relationship c)) \<and>
    (\<forall>rules. serialize_rules (classes s model) = Some rules \<longrightarrow>
       (\<exists>xs ys. serialize_rules (classes s' model) = Some (rules @ xs @ [''-'' @ relation_name d] @ ys)))"
proof (induction ds arbitrary: fa s)
  case Nil
  then show ?case by simp
next
  case (Cons x ds)
  from Cons.prems(1) obtain fm ff s1 where
    fm: "tables_to_models e (foreign_table_name x) = Some fm" and
    r1: "rec s fm P = (Inr ff, s1)" and
    rest: "wire_dynamic rec e P model ds (AList.update (relation_name x) (SubFactory ff) fa)
             (add_relationship model (relation_name x) (cls_name (classes s1 fm)) s1) = (Inr fa', s')"
    by (auto split: option.splits sum.splits prod.splits)
  let ?s2 = "add_relationship model (relation_name x) (cls_name (classes s1 fm)) s1"
  from rec[of s fm P] r1 have e1: "class_extends (classes s model) (classes s1 model)"
    by (simp add: build_extends_def)
  have e12: "class_extends (classes s model) (classes ?s2 model)"
    by (rule class_extends_trans[OF e1 add_relationship_class])
  from wire_dynamic_extends[where rec=rec and s="?s2" and e=e and P=P and model=model and ds=ds
      and fa="AList.update (relation_name x) (SubFactory ff) fa", OF rec] rest
  have e2: "class_extends (classes ?s2 model) (classes s' model)"
    by (simp add: build_extends_def)
  show ?case
  proof (cases "d = x")
    case True
    have "relation_name x \<in> fst ` set (cls_attrs (classes ?s2 model))"
      using add_relationship_attr[of model "relation_name x" "cls_name (classes s1 fm)" s1]
      by (metis domI dom_map_of_conv_image_fst)
    with e2 have "relation_name x \<in> fst ` set (cls_attrs (classes s' model))"
      by (auto simp: class_extends_def)
    then obtain v where "map_of (cls_attrs (classes s' model)) (relation_name x) = Some v"
      by (metis domD dom_map_of_conv_image_fst)
    then have a: "\<exists>c. map_of (cls_attrs (classes s' model)) (relation_name x) = Some (Relationship c)"
      by (cases v) simp
    have b: "\<exists>xs ys. serialize_rules (classes s' model) = Some (rules @ xs @ [''-'' @ relation_name x] @ ys)"
      if r: "serialize_rules (classes s model) = Some rules" for rules
    proof -
      from e1 r obtain xs where "serialize_rules (classes s1 model) = Some (rules @ xs)"
        by (auto simp: class_extends_def)
      from add_relationship_rules[OF this]
      have "serialize_rules (classes ?s2 model) = Some (rules @ xs @ [''-'' @ relation_name x])"
        by simp
      with e2 obtain ys where
        "serialize_rules (classes s' model) = Some ((rules @ xs @ [''-'' @ relation_name x]) @ ys)"
        by (auto simp: class_extends_def)
      then show ?thesis by auto
    qed
    from a b True show ?thesis by blast
  next
    case False
    with Cons.prems(2) have d: "d \<in> set ds" by simp
    from Cons.IH[OF rest d] have
      a: "\<exists>c. map_of (cls_attrs (classes s' model)) (relation_name d) = Some (Relationship c)" and
      b: "\<forall>rules. serialize_rules (classes ?s2 model) = Some rules \<longrightarrow>
            (\<exists>xs ys. serialize_rules (classes s' model) = Some (rules @ xs @ [''-'' @ relation_name d] @ ys))"
      by blast+
    have "\<exists>xs ys. serialize_rules (classes s' model) = Some (rules @ xs @ [''-'' @ relation_name d] @ ys)"
      if r: "serialize_rules (classes s model) = Some rules" for rules
    proof -
      from e12 r obtain zs where "serialize_rules (classes ?s2 model) = Some (rules @ zs)"
        by (auto simp: class_extends_def)
      with b obtain xs ys where
        "serialize_rules (classes s' model) = Some ((rules @ zs) @ xs @ [''-'' @ relation_name d] @ ys)"
        by blast
      then have "serialize_rules (classes s' model) = Some (rules @ (zs @ xs) @ [''-'' @ relation_name d] @ ys)"
        by simp
      then show ?thesis by blast
    qed
    with a show ?thesis by blast
  qed
qed

subsection \<open>Termination when no relationship is inferred\<close>

text \<open>
  With declared relationships only, the visited set bounds the recursion: on
  well-formed tables every nested call adds a table of \<^verbatim>\<open>tables_to_models\<close> that was
  not yet visited, so a depth bound above the number of unvisited tables is never
  reached, cyclic schemas included.
\<close>

lemma wf_tables_extends: "build_extends s s' \<Longrightarrow> wf_tables e s \<Longrightarrow> wf_tables e s'"
  by (simp add: build_extends_def class_extends_def wf_tables_def)

lemma no_inferred_extends:
  "build_extends s s' \<Longrightarrow> no_inferred_relationships s \<Longrightarrow> no_inferred_relationships s'"
  by (simp add: build_extends_def class_extends_def no_inferred_relationships_def)

lemma wire_relationships_no_recursion_error:
  assumes ext: "\<And>s m P. build_extends s (snd (rec s m P))"
  shows "(\<And>s1 r fm. build_extends s s1 \<Longrightarrow> r \<in> set rels \<Longrightarrow> target r \<notin> P \<Longrightarrow>
            tables_to_models e (target r) = Some fm \<Longrightarrow> fst (rec s1 fm P) \<noteq> Inl RecursionError) \<Longrightarrow>
         fst (wire_relationships rec e P rels fa s) \<noteq> Inl RecursionError"
proof (induction rels arbitrary: fa s)
  case Nil
  show ?case by simp
next
  case (Cons r rels)
  show ?case
  proof (cases "target r \<in> P")
    case True
    have "fst (wire_relationships rec e P rels fa s) \<noteq> Inl RecursionError"
    proof (rule Cons.IH)
      fix s1 r' fm'
      assume "build_extends s s1" "r' \<in> set rels" "target r' \<notin> P"
        "tables_to_models e (target r') = Some fm'"
      then show "fst (rec s1 fm' P) \<noteq> Inl RecursionError"
        by (intro Cons.prems[of s1 r' fm']) simp_all
    qed
    with True show ?thesis by simp
  next
    case False
    show ?thesis
    proof (cases "tables_to_models e (target r)")
      case None
      with False show ?thesis by simp
    next
      case (Some fm)
      obtain res s1 where r1: "rec s fm P = (res, s1)" by (cases "rec s fm P")
      from ext[of s fm P] r1 have e1: "build_extends s s1" by simp
      from Cons.prems[of s r fm, OF build_extends_refl _ False Some] r1
      have ne: "res \<noteq> Inl RecursionError" by simp
      show ?thesis
      proof (cases res)
        case (Inl err)
        with ne False Some r1 show ?thesis by simp
      next
        case (Inr ff)
        have "fst (wire_relationships rec e P rels
                (AList.update (rel_key r)
                   (if \<not> uselist r then SubFactory ff else generate_many_to_one ff (rel_key r)) fa) s1)
              \<noteq> Inl RecursionError"
        proof (rule Cons.IH)
          fix s2 r' fm'
          assume "build_extends s1 s2" "r' \<in> set rels" "target r' \<notin> P"
            "tables_to_models e (target r') = Some fm'"
          then show "fst (rec s2 fm' P) \<noteq> Inl RecursionError"
            by (intro Cons.prems[of s2 r' fm'] build_extends_trans[OF e1]) simp_all
        qed
        with False Some r1 Inr show ?thesis by simp
      qed
    qed
  qed
qed

lemma relation_cols_error: "relation_cols rels = Inl err \<Longrightarrow> err = StopIteration"
  by (induction rels) (auto split: list.splits sum.splits)

lemma column_loop_error: "column_loop e tn rc cols fa dr = Inl err \<Longrightarrow> err = KeyError"
proof (induction cols arbitrary: fa dr)
  case Nil
  then show ?case by simp
next
  case (Cons c cols)
  have "column_attribute e tn c = Inl er \<Longrightarrow> er = KeyError" for er
    by (auto simp: column_attribute_def provide_def split: option.splits if_splits)
  with Cons show ?case
    by (auto simp: Let_def split: if_splits sum.splits)
qed

lemma make_factory_no_recursion_error_nested:
  assumes fin: "finite (dom (tables_to_models e))"
  shows "wf_tables e s \<Longrightarrow> no_inferred_relationships s \<Longrightarrow>
         fullname (classes s model) \<in> dom (tables_to_models e) - P \<Longrightarrow>
         card (dom (tables_to_models e) - P) \<le> n \<Longrightarrow>
         fst (make_factory e n s model P) \<noteq> Inl RecursionError"
proof (induction n arbitrary: s model P)
  case 0
  from fin have "finite (dom (tables_to_models e) - P)" by simp
  with 0 show ?case by auto
next
  case (Suc n)
  let ?m = "classes s model"
  let ?tn = "fullname ?m"
  let ?P = "insert ?tn P"
  let ?D = "dom (tables_to_models e)"
  have card: "card (?D - ?P) \<le> n"
  proof -
    have "?D - ?P = (?D - P) - {?tn}" by auto
    moreover from fin have "finite (?D - P)" by simp
    ultimately have "card (?D - ?P) = card (?D - P) - 1"
      using Suc.prems(3) by (simp add: card_Diff_singleton_if)
    moreover from Suc.prems(3) fin have "card (?D - P) > 0"
      by (metis card_gt_0_iff empty_iff finite_Diff)
    ultimately show ?thesis using Suc.prems(4) by simp
  qed
  show ?case
  proof (cases "factory_registry s ?tn")
    case (Some f)
    then show ?thesis by simp
  next
    case None
    show ?thesis
    proof (cases "relation_cols (relationships ?m)")
      case (Inl err)
      with None relation_cols_error[OF Inl] show ?thesis by simp
    next
      case (Inr rc)
      show ?thesis
      proof (cases "column_loop e ?tn rc (columns ?m) [] []")
        case (Inl err)
        with None Inr column_loop_error[OF Inl] show ?thesis by simp
      next
        case cl: (Inr fadr)
        obtain fa dr where fadr: "fadr = (fa, dr)" by (cases fadr)
        from column_loop_dynamic[OF cl[unfolded fadr]] Suc.prems(2) Inr have dr: "dr = []"
          by (simp add: no_inferred_relationships_def)
        have nested: "fst (make_factory e n s1 fm ?P) \<noteq> Inl RecursionError"
          if "build_extends s s1" "r \<in> set (relationships ?m)" "target r \<notin> ?P"
            "tables_to_models e (target r) = Some fm" for s1 r fm
        proof (rule Suc.IH)
          from that(1) Suc.prems(1) show wf: "wf_tables e s1" by (rule wf_tables_extends)
          from that(1) Suc.prems(2) show "no_inferred_relationships s1" by (rule no_inferred_extends)
          from wf that(4) have "fullname (classes s1 fm) = target r" by (simp add: wf_tables_def)
          with that(3,4) show "fullname (classes s1 fm) \<in> ?D - ?P" by auto
          from card show "card (?D - ?P) \<le> n" .
        qed
        have w: "fst (wire_relationships (make_factory e n) e ?P (relationships ?m) fa s)
                  \<noteq> Inl RecursionError"
          by (rule wire_relationships_no_recursion_error[OF make_factory_extends]) (rule nested)
        obtain r1 s1 where w1:
          "wire_relationships (make_factory e n) e ?P (relationships ?m) fa s = (r1, s1)"
          by (cases "wire_relationships (make_factory e n) e ?P (relationships ?m) fa s")
        with w have "r1 \<noteq> Inl RecursionError" by simp
        with None Inr cl fadr dr w1 show ?thesis
          by (cases r1) (simp_all add: register_factory_def Let_def)
      qed
    qed
  qed
qed

lemma make_factory_terminates_declared:
  assumes fin: "finite (dom (tables_to_models e))"
    and wf: "wf_tables e s" and ni: "no_inferred_relationships s"
    and n: "card (dom (tables_to_models e) - P) < n"
  shows "fst (make_factory e n s model P) \<noteq> Inl RecursionError"
proof -
  from n obtain n' where n': "n = Suc n'" "card (dom (tables_to_models e) - P) \<le> n'"
    by (cases n) auto
  let ?m = "classes s model"
  let ?tn = "fullname ?m"
  let ?P = "insert ?tn P"
  let ?D = "dom (tables_to_models e)"
  from fin have "card (?D - ?P) \<le> card (?D - P)"
    by (intro card_mono) auto
  with n' have card: "card (?D - ?P) \<le> n'" by simp
  show ?thesis
  proof (cases "factory_registry s ?tn")
    case (Some f)
    with n' show ?thesis by simp
  next
    case None
    show ?thesis
    proof (cases "relation_cols (relationships ?m)")
      case (Inl err)
      with None n' relation_cols_error[OF Inl] show ?thesis by simp
    next
      case (Inr rc)
      show ?thesis
      proof (cases "column_loop e ?tn rc (columns ?m) [] []")
        case (Inl err)
        with None Inr n' column_loop_error[OF Inl] show ?thesis by simp
      next
        case cl: (Inr fadr)
        obtain fa dr where fadr: "fadr = (fa, dr)" by (cases fadr)
        from column_loop_dynamic[OF cl[unfolded fadr]] ni Inr have dr: "dr = []"
          by (simp add: no_inferred_relationships_def)
        have nested: "fst (make_factory e n' s1 fm ?P) \<noteq> Inl RecursionError"
          if "build_extends s s1" "r \<in> set (relationships ?m)" "target r \<notin> ?P"
            "tables_to_models e (target r) = Some fm" for s1 r fm
        proof (rule make_factory_no_recursion_error_nested[OF fin])
          from that(1) wf show wf1: "wf_tables e s1" by (rule wf_tables_extends)
          from that(1) ni show "no_inferred_relationships s1" by (rule no_inferred_extends)
          from wf1 that(4) have "fullname (classes s1 fm) = target r" by (simp add: wf_tables_def)
          with that(3,4) show "fullname (classes s1 fm) \<in> ?D - ?P" by auto
          from card show "card (?D - ?P) \<le> n'" .
        qed
        have w: "fst (wire_relationships (make_factory e n') e ?P (relationships ?m) fa s)
                  \<noteq> Inl RecursionError"
          by (rule wire_relationships_no_recursion_error[OF make_factory_extends]) (rule nested)
        obtain r1 s1 where w1:
          "wire_relationships (make_factory e n') e ?P (relationships ?m) fa s = (r1, s1)"
          by (cases "wire_relationships (make_factory e n') e ?P (relationships ?m) fa s")
        with w have "r1 \<noteq> Inl RecursionError" by simp
        with None Inr cl fadr dr w1 n' show ?thesis
          by (cases r1) (simp_all add: register_factory_def Let_def)
      qed
    qed
  qed
qed

text \<open>
  \<open>Team\<close> and \<open>Member\<close> declare a relationship to each other; building either ends
  within depth three, whatever the visited set is.
\<close>

lemma team_tables:
  "tables_to_models team_env = [''member'' \<mapsto> 1, ''team'' \<mapsto> 0]"
  by (simp add: team_env_def factory_generator_def team_classes_def team_cls_def member_cls_def)

lemma team_terminates:
  "fst (make_factory team_env (Suc (Suc (Suc n))) (new_session team_classes) model P)
     \<noteq> Inl RecursionError"
proof (rule make_factory_terminates_declared)
  show "finite (dom (tables_to_models team_env))" by (simp add: team_tables)
  show "wf_tables team_env (new_session team_classes)"
    by (auto simp: wf_tables_def team_tables new_session_def team_classes_def team_cls_def
        member_cls_def split: if_splits)
  show "no_inferred_relationships (new_session team_classes)"
    by (auto simp: no_inferred_relationships_def new_session_def team_classes_def team_cls_def
        member_cls_def inferred_relationships_def)
  have "card (dom (tables_to_models team_env) - P) \<le> card (dom (tables_to_models team_env))"
    by (rule card_mono) (simp_all add: team_tables)
  also have "\<dots> = 2" by (simp add: team_tables)
  finally show "card (dom (tables_to_models team_env) - P) < Suc (Suc (Suc n))" by simp
qed

subsection \<open>Invocation: what a call leaves in place\<close>

lemma session_grows_refl: "session_grows s s"
  by (simp add: session_grows_def)

lemma session_grows_trans:
  assumes "session_grows s1 s2" "session_grows s2 s3"
  shows "session_grows s1 s3"
proof -
  have "\<exists>ys. getattr_collection s3 a rn = Some (xs @ ys)"
    if "getattr_collection s1 a rn = Some xs" for a rn xs
  proof -
    from that assms(1) obtain ys where "getattr_collection s2 a rn = Some (xs @ ys)"
      unfolding session_grows_def by blast
    with assms(2) obtain zs where "getattr_collection s3 a rn = Some ((xs @ ys) @ zs)"
      unfolding session_grows_def by blast
    then show ?thesis by auto
  qed
  moreover have "\<forall>a<length (instances s1). inst_model (instances s3 ! a) = inst_model (instances s1 ! a)"
    using assms unfolding session_grows_def by (metis order_less_le_trans)
  moreover have "map_of (inst_attrs (instances s3 ! a)) k = Some (Ref b)"
    if "a < length (instances s1)" "map_of (inst_attrs (instances s1 ! a)) k = Some (Ref b)" for a k b
  proof -
    from that assms(1) have "a < length (instances s2)"
      "map_of (inst_attrs (instances s2 ! a)) k = Some (Ref b)"
      unfolding session_grows_def by auto
    with assms(2) show ?thesis unfolding session_grows_def by blast
  qed
  moreover have "classes s3 = classes s1" "factory_registry s3 = factory_registry s1"
    "\<forall>k a. model_instance_registry s1 k = Some a \<longrightarrow> model_instance_registry s3 k = Some a"
    "length (instances s1) \<le> length (instances s3)"
    using assms unfolding session_grows_def by auto
  ultimately show ?thesis
    unfolding session_grows_def by blast
qed

lemma getattr_collection_draws [simp]:
  "getattr_collection (s\<lparr>draws := n\<rparr>) a rn = getattr_collection s a rn"
  by (simp add: getattr_collection_def)

lemma session_grows_draws: "session_grows s (s\<lparr>draws := n\<rparr>)"
  by (simp add: session_grows_def)

lemma session_grows_Factory_create:
  "session_grows s (snd (Factory_create m kw s))"
  by (auto simp: session_grows_def Factory_create_def getattr_collection_def nth_append)

lemma session_grows_registry_update:
  "model_instance_registry s k = None \<Longrightarrow>
   session_grows s (s\<lparr>model_instance_registry := (model_instance_registry s)(k \<mapsto> a)\<rparr>)"
  by (auto simp: session_grows_def getattr_collection_def)

lemma session_grows_create:
  "session_grows s (snd (RegistryModelFactory_create m kw s))"
proof (cases "tablename (classes s m)")
  case None
  then show ?thesis by (simp add: RegistryModelFactory_create_def session_grows_refl)
next
  case (Some k)
  show ?thesis
  proof (cases "model_instance_registry s k")
    case (Some a)
    with \<open>tablename (classes s m) = Some k\<close> show ?thesis
      by (simp add: RegistryModelFactory_create_def session_grows_refl)
  next
    case None
    obtain a s1 where fc: "Factory_create m kw s = (a, s1)" by (cases "Factory_create m kw s")
    from session_grows_Factory_create[of s m kw] fc have 1: "session_grows s s1" by simp
    have "model_instance_registry s1 k = None" using None fc by (auto simp: Factory_create_def)
    from session_grows_trans[OF 1 session_grows_registry_update[OF this]] None fc
      \<open>tablename (classes s m) = Some k\<close>
    show ?thesis
      by (simp add: RegistryModelFactory_create_def)
  qed
qed

lemma session_grows_instantiate:
  "session_grows s (snd (instantiate st m kw s))"
  using session_grows_create[of s m kw] session_grows_Factory_create[of s m kw]
  by (cases st) (auto simp: instantiate_def split: prod.splits)

lemma getattr_collection_append_related:
  "getattr_collection s self rn = Some xs \<Longrightarrow>
   getattr_collection (append_related self rn b s) a rn' =
     (if a = self \<and> rn' = rn then Some (xs @ [b]) else getattr_collection s a rn')"
  by (auto simp: append_related_def getattr_collection_def update_conv' nth_list_update
      split: option.splits val.splits if_splits)

lemma append_related_ref:
  "a < length (instances s) \<Longrightarrow> map_of (inst_attrs (instances s ! a)) k = Some (Ref c) \<Longrightarrow>
   map_of (inst_attrs (instances (append_related self rn b s) ! a)) k = Some (Ref c)"
  by (auto simp: append_related_def getattr_collection_def update_conv' nth_list_update
      split: option.splits val.splits if_splits)

lemma session_grows_append_related: "session_grows s (append_related self rn b s)"
proof (cases "getattr_collection s self rn")
  case None
  then show ?thesis by (simp add: append_related_def session_grows_refl)
next
  case (Some xs)
  have self: "self < length (instances s)"
    using Some by (auto simp: getattr_collection_def split: if_splits)
  have 1: "classes (append_related self rn b s) = classes s"
    "factory_registry (append_related self rn b s) = factory_registry s"
    "model_instance_registry (append_related self rn b s) = model_instance_registry s"
    "length (instances (append_related self rn b s)) = length (instances s)"
    by (simp_all add: append_related_def Some)
  have 2: "inst_model (instances (append_related self rn b s) ! a) = inst_model (instances s ! a)"
    if "a < length (instances s)" for a
    using that self by (cases "a = self") (simp_all add: append_related_def Some nth_list_update)
  have 3: "\<exists>ys. getattr_collection (append_related self rn b s) a rn' = Some (xs' @ ys)"
    if "getattr_collection s a rn' = Some xs'" for a rn' xs'
    using that Some getattr_collection_append_related[OF Some, of b a rn'] by auto
  from 1 2 3 append_related_ref show ?thesis
    unfolding session_grows_def by auto
qed

lemma session_grows_invocation:
  "session_grows s (snd (call_factory st f s))"
  "session_grows s (snd (resolve st fa s))"
  "session_grows s (snd (post_generation st self fa s))"
  "session_grows s (snd (many_to_one g rn self create s))"
proof (induction st f s and st fa s and st self fa s and g rn self create s
    rule: call_factory_resolve_post_generation_many_to_one.induct)
  case (1 st i nm fa s)
  show ?case
  proof (cases "get_model_class fa")
    case None
    then show ?thesis by (simp add: session_grows_refl)
  next
    case (Some m)
    obtain r1 s1 where r1: "resolve st fa s = (r1, s1)" by (cases "resolve st fa s")
    from "1.IH"(1)[OF Some] r1 have g1: "session_grows s s1" by simp
    show ?thesis
    proof (cases r1)
      case (Inl err)
      with Some r1 g1 show ?thesis by simp
    next
      case (Inr kw)
      obtain r2 s2 where r2: "instantiate st m kw s1 = (r2, s2)" by (cases "instantiate st m kw s1")
      from session_grows_instantiate[of s1 st m kw] r2 have g2: "session_grows s1 s2" by simp
      show ?thesis
      proof (cases r2)
        case (Inl err)
        with Some r1 Inr r2 session_grows_trans[OF g1 g2] show ?thesis by simp
      next
        case inst: (Inr a)
        from "1.IH"(2)[OF Some r1[symmetric] Inr r2[symmetric] inst]
        have g3: "session_grows s2 (snd (post_generation st a fa s2))" .
        from session_grows_trans[OF session_grows_trans[OF g1 g2] g3] Some r1 Inr r2 inst
        show ?thesis by (auto split: prod.splits sum.splits)
      qed
    qed
  qed
next
  case (2 st s)
  show ?case by (simp add: session_grows_refl)
next
  case (3 st k provider args rest s)
  from session_grows_trans[OF session_grows_draws 3] show ?case
    by (auto split: prod.splits sum.splits)
next
  case (4 st k low rest s)
  from session_grows_trans[OF session_grows_draws 4] show ?case
    by (auto split: prod.splits sum.splits)
next
  case (5 st k v rest s)
  then show ?case by (auto split: prod.splits sum.splits)
next
  case (6 st k f rest s)
  obtain r1 s1 where r1: "call_factory st f s = (r1, s1)" by (cases "call_factory st f s")
  with "6.IH"(1) have g1: "session_grows s s1" by simp
  show ?case
  proof (cases r1)
    case (Inl err)
    with r1 g1 show ?thesis by simp
  next
    case (Inr a)
    from "6.IH"(2)[OF r1[symmetric] Inr] have "session_grows s1 (snd (resolve st rest s1))" .
    from session_grows_trans[OF g1 this] r1 Inr show ?thesis
      by (auto split: prod.splits sum.splits)
  qed
next
  case (7 st k f rn rest s)
  then show ?case by simp
next
  case (8 st k m rest s)
  then show ?case by simp
next
  case (9 st self s)
  show ?case by (simp add: session_grows_refl)
next
  case (10 st self k f rn rest s)
  obtain r1 s1 where r1: "many_to_one f rn self (st = CREATE_STRATEGY) s = (r1, s1)"
    by (cases "many_to_one f rn self (st = CREATE_STRATEGY) s")
  with "10.IH"(1) have g1: "session_grows s s1" by simp
  show ?case
  proof (cases r1)
    case (Inl err)
    with r1 g1 show ?thesis by simp
  next
    case (Inr u)
    from "10.IH"(2)[OF r1[symmetric] Inr] have "session_grows s1 (snd (post_generation st self rest s1))" .
    from session_grows_trans[OF g1 this] r1 Inr show ?thesis by simp
  qed
next
  case (12 model_factory rn self create s)
  show ?case
  proof (cases "create")
    case False
    then show ?thesis by (simp add: session_grows_refl)
  next
    case True
    show ?thesis
    proof (cases "getattr_collection s self rn")
      case None
      with True show ?thesis by (simp add: session_grows_refl)
    next
      case (Some xs)
      obtain r1 s1 where r1: "call_factory CREATE_STRATEGY model_factory s = (r1, s1)"
        by (cases "call_factory CREATE_STRATEGY model_factory s")
      from "12.IH"[OF _ Some] True r1 have g1: "session_grows s s1" by simp
      show ?thesis
      proof (cases r1)
        case (Inl err)
        with True Some r1 g1 show ?thesis by simp
      next
        case (Inr b)
        from session_grows_trans[OF g1 session_grows_append_related] True Some r1 Inr
        show ?thesis by simp
      qed
    qed
  qed
qed simp_all

lemma session_inv_new_session: "session_inv (new_session cs)"
  by (simp add: session_inv_def new_session_def)

lemma session_inv_unique:
  assumes "session_inv s" "a < length (instances s)" "b < length (instances s)"
    "tablename (classes s (inst_model (instances s ! a))) =
     tablename (classes s (inst_model (instances s ! b)))"
  shows "a = b"
proof -
  from assms(1,2) obtain k where k: "model_instance_registry s k = Some a"
    unfolding session_inv_def by blast
  from assms(1,3) obtain k' where k': "model_instance_registry s k' = Some b"
    unfolding session_inv_def by blast
  from assms(1) k have "tablename (classes s (inst_model (instances s ! a))) = Some k"
    unfolding session_inv_def by blast
  moreover from assms(1) k' have "tablename (classes s (inst_model (instances s ! b))) = Some k'"
    unfolding session_inv_def by blast
  ultimately have "k = k'" using assms(4) by simp
  with k k' show ?thesis by simp
qed

lemma session_inv_draws: "session_inv s \<Longrightarrow> session_inv (s\<lparr>draws := n\<rparr>)"
  by (simp add: session_inv_def)

lemma session_inv_create:
  assumes "session_inv s"
  shows "session_inv (snd (RegistryModelFactory_create m kw s))"
proof (cases "tablename (classes s m)")
  case None
  with assms show ?thesis by (simp add: RegistryModelFactory_create_def)
next
  case (Some k)
  show ?thesis
  proof (cases "model_instance_registry s k")
    case (Some a)
    with \<open>tablename (classes s m) = Some k\<close> assms show ?thesis
      by (simp add: RegistryModelFactory_create_def)
  next
    case None
    let ?s' = "s\<lparr>instances := instances s @ [\<lparr>inst_model = m, inst_attrs = kw\<rparr>],
                model_instance_registry := (model_instance_registry s)(k \<mapsto> length (instances s))\<rparr>"
    have eq: "snd (RegistryModelFactory_create m kw s) = ?s'"
      using None \<open>tablename (classes s m) = Some k\<close>
      by (simp add: RegistryModelFactory_create_def Factory_create_def)
    have p1: "a < length (instances ?s') \<and>
            tablename (classes ?s' (inst_model (instances ?s' ! a))) = Some k'"
      if r: "model_instance_registry ?s' k' = Some a" for k' a
    proof (cases "k' = k")
      case True
      with r \<open>tablename (classes s m) = Some k\<close> show ?thesis by (auto simp: nth_append)
    next
      case False
      with r have "model_instance_registry s k' = Some a" by simp
      with assms have "a < length (instances s)"
        "tablename (classes s (inst_model (instances s ! a))) = Some k'"
        unfolding session_inv_def by blast+
      then show ?thesis by (simp add: nth_append)
    qed
    have p2: "\<exists>k'. model_instance_registry ?s' k' = Some a"
      if a: "a < length (instances ?s')" for a
    proof (cases "a = length (instances s)")
      case True
      then show ?thesis by auto
    next
      case False
      with a have "a < length (instances s)" by simp
      with assms obtain k' where k': "model_instance_registry s k' = Some a"
        unfolding session_inv_def by blast
      with None have "k' \<noteq> k" by auto
      with k' show ?thesis by auto
    qed
    from p1 p2 have "session_inv ?s'"
      unfolding session_inv_def by blast
    with eq show ?thesis by simp
  qed
qed

lemma session_inv_append_related:
  assumes "session_inv s"
  shows "session_inv (append_related self rn b s)"
proof (cases "getattr_collection s self rn")
  case None
  with assms show ?thesis by (simp add: append_related_def)
next
  case (Some xs)
  then have self: "self < length (instances s)"
    by (auto simp: getattr_collection_def split: if_splits)
  have "inst_model ((instances s)[self := (instances s ! self)\<lparr>inst_attrs := v\<rparr>] ! a)
        = inst_model (instances s ! a)" for a v
    using self by (cases "a = self") (simp_all add: nth_list_update)
  with assms Some show ?thesis
    by (simp add: session_inv_def append_related_def)
qed

lemma session_inv_invocation:
  "session_inv s \<Longrightarrow> session_inv (snd (call_factory CREATE_STRATEGY f s))"
  "session_inv s \<Longrightarrow> session_inv (snd (resolve CREATE_STRATEGY fa s))"
  "session_inv s \<Longrightarrow> session_inv (snd (post_generation CREATE_STRATEGY self fa s))"
  "session_inv s \<Longrightarrow> session_inv (snd (many_to_one g rn self create s))"
proof -
  have
    "st = CREATE_STRATEGY \<longrightarrow> session_inv s \<longrightarrow> session_inv (snd (call_factory st f s))"
    "st = CREATE_STRATEGY \<longrightarrow> session_inv s \<longrightarrow> session_inv (snd (resolve st fa s))"
    "st = CREATE_STRATEGY \<longrightarrow> session_inv s \<longrightarrow> session_inv (snd (post_generation st self fa s))"
    "session_inv s \<longrightarrow> session_inv (snd (many_to_one g rn self create s))"
    for st
  proof (induction st f s and st fa s and st self fa s and g rn self create s
      rule: call_factory_resolve_post_generation_many_to_one.induct)
    case (1 st i nm fa s)
    show ?case
    proof (intro impI)
      assume st: "st = CREATE_STRATEGY" and inv: "session_inv s"
      show "session_inv (snd (call_factory st (Factory i nm fa) s))"
      proof (cases "get_model_class fa")
        case None
        with inv show ?thesis by simp
      next
        case (Some m)
        obtain r1 s1 where r1: "resolve st fa s = (r1, s1)" by (cases "resolve st fa s")
        from "1.IH"(1)[OF Some] r1 st inv have i1: "session_inv s1" by simp
        show ?thesis
        proof (cases r1)
          case (Inl err)
          with Some r1 i1 show ?thesis by simp
        next
          case (Inr kw)
          obtain r2 s2 where r2: "instantiate st m kw s1 = (r2, s2)" by (cases "instantiate st m kw s1")
          from session_inv_create[OF i1, of m kw] r2 st have i2: "session_inv s2"
            by (simp add: instantiate_def)
          show ?thesis
          proof (cases r2)
            case (Inl err)
            with Some r1 Inr r2 i2 show ?thesis by simp
          next
            case inst: (Inr a)
            from "1.IH"(2)[OF Some r1[symmetric] Inr r2[symmetric] inst] st i2
            have "session_inv (snd (post_generation st a fa s2))" by simp
            with Some r1 Inr r2 inst show ?thesis by (auto split: prod.splits sum.splits)
          qed
        qed
      qed
    qed
  next
    case (2 st s)
    show ?case by simp
  next
    case (3 st k provider args rest s)
    then show ?case by (auto split: prod.splits sum.splits dest: session_inv_draws)
  next
    case (4 st k low rest s)
    then show ?case by (auto split: prod.splits sum.splits dest: session_inv_draws)
  next
    case (5 st k v rest s)
    then show ?case by (auto split: prod.splits sum.splits)
  next
    case (6 st k f rest s)
    show ?case
    proof (intro impI)
      assume st: "st = CREATE_STRATEGY" and inv: "session_inv s"
      obtain r1 s1 where r1: "call_factory st f s = (r1, s1)" by (cases "call_factory st f s")
      with "6.IH"(1) st inv have i1: "session_inv s1" by simp
      show "session_inv (snd (resolve st ((k, SubFactory f) # rest) s))"
      proof (cases r1)
        case (Inl err)
        with r1 i1 show ?thesis by simp
      next
        case (Inr a)
        from "6.IH"(2)[OF r1[symmetric] Inr] st i1 have "session_inv (snd (resolve st rest s1))" by simp
        with r1 Inr show ?thesis by (auto split: prod.splits sum.splits)
      qed
    qed
  next
    case (7 st k f rn rest s)
    then show ?case by simp
  next
    case (8 st k m rest s)
    then show ?case by simp
  next
    case (9 st self s)
    show ?case by simp
  next
    case (10 st self k f rn rest s)
    show ?case
    proof (intro impI)
      assume st: "st = CREATE_STRATEGY" and inv: "session_inv s"
      obtain r1 s1 where r1: "many_to_one f rn self (st = CREATE_STRATEGY) s = (r1, s1)"
        by (cases "many_to_one f rn self (st = CREATE_STRATEGY) s")
      with "10.IH"(1) inv have i1: "session_inv s1" by simp
      show "session_inv (snd (post_generation st self ((k, PostGeneration f rn) # rest) s))"
      proof (cases r1)
        case (Inl err)
        with r1 i1 show ?thesis by simp
      next
        case (Inr u)
        from "10.IH"(2)[OF r1[symmetric] Inr] st i1
        have "session_inv (snd (post_generation st self rest s1))" by simp
        with r1 Inr show ?thesis by simp
      qed
    qed
  next
    case (12 model_factory rn self create s)
    show ?case
    proof (intro impI)
      assume inv: "session_inv s"
      show "session_inv (snd (many_to_one model_factory rn self create s))"
      proof (cases "create")
        case False
        with inv show ?thesis by simp
      next
        case True
        show ?thesis
        proof (cases "getattr_collection s self rn")
          case None
          with True inv show ?thesis by simp
        next
          case (Some xs)
          obtain r1 s1 where r1: "call_factory CREATE_STRATEGY model_factory s = (r1, s1)"
            by (cases "call_factory CREATE_STRATEGY model_factory s")
          from "12.IH"[OF _ Some] True r1 inv have i1: "session_inv s1" by simp
          show ?thesis
          proof (cases r1)
            case (Inl err)
            with True Some r1 i1 show ?thesis by simp
          next
            case (Inr b)
            from session_inv_append_related[OF i1] True Some r1 Inr
            show ?thesis by simp
          qed
        qed
      qed
    qed
  qed simp_all
  then show
    "session_inv s \<Longrightarrow> session_inv (snd (call_factory CREATE_STRATEGY f s))"
    "session_inv s \<Longrightarrow> session_inv (snd (resolve CREATE_STRATEGY fa s))"
    "session_inv s \<Longrightarrow> session_inv (snd (post_generation CREATE_STRATEGY self fa s))"
    "session_inv s \<Longrightarrow> session_inv (snd (many_to_one g rn self create s))"
    by blast+
qed

text \<open>A successful invocation, taken apart.\<close>

lemma call_factory_InrE:
  assumes "call_factory st f s = (Inr a, s')"
  obtains m kw s1 s2 where
    "get_model_class (fattrs f) = Some m"
    "resolve st (fattrs f) s = (Inr kw, s1)"
    "instantiate st m kw s1 = (Inr a, s2)"
    "post_generation st a (fattrs f) s2 = (Inr (), s')"
proof (cases f)
  case (Factory i nm fa)
  with assms show ?thesis
    by (auto split: option.splits prod.splits sum.splits intro: that)
qed

lemma create_hit:
  "tablename (classes s m) = Some k \<Longrightarrow> model_instance_registry s k = Some a \<Longrightarrow>
   RegistryModelFactory_create m kw s = (Inr a, s)"
  by (simp add: RegistryModelFactory_create_def)

lemma create_registers:
  "tablename (classes s m) = Some k \<Longrightarrow> RegistryModelFactory_create m kw s = (Inr a, s') \<Longrightarrow>
   model_instance_registry s' k = Some a"
  by (auto simp: RegistryModelFactory_create_def Factory_create_def split: option.splits)

lemma call_factory_hit:
  assumes call: "call_factory CREATE_STRATEGY f s = (Inr b, s')"
    and m: "get_model_class (fattrs f) = Some m"
    and k: "tablename (classes s m) = Some k"
    and reg: "model_instance_registry s k = Some a"
  shows "b = a"
proof -
  from call obtain m' kw s1 s2 where
    m': "get_model_class (fattrs f) = Some m'" and
    res: "resolve CREATE_STRATEGY (fattrs f) s = (Inr kw, s1)" and
    inst: "instantiate CREATE_STRATEGY m' kw s1 = (Inr b, s2)"
    by (rule call_factory_InrE)
  from m m' have [simp]: "m' = m" by simp
  from session_grows_invocation(2)[of s CREATE_STRATEGY "fattrs f"] res
  have g: "session_grows s s1" by simp
  from g k have k1: "tablename (classes s1 m) = Some k" by (simp add: session_grows_def)
  from g reg have "model_instance_registry s1 k = Some a" by (simp add: session_grows_def)
  from create_hit[OF k1 this] inst show ?thesis by (simp add: instantiate_def)
qed

lemma call_factory_registers:
  assumes call: "call_factory CREATE_STRATEGY f s = (Inr a, s')"
    and m: "get_model_class (fattrs f) = Some m"
    and k: "tablename (classes s m) = Some k"
  shows "model_instance_registry s' k = Some a"
proof -
  from call obtain m' kw s1 s2 where
    m': "get_model_class (fattrs f) = Some m'" and
    res: "resolve CREATE_STRATEGY (fattrs f) s = (Inr kw, s1)" and
    inst: "instantiate CREATE_STRATEGY m' kw s1 = (Inr a, s2)" and
    pg: "post_generation CREATE_STRATEGY a (fattrs f) s2 = (Inr (), s')"
    by (rule call_factory_InrE)
  from m m' have [simp]: "m' = m" by simp
  from session_grows_invocation(2)[of s CREATE_STRATEGY "fattrs f"] res
  have g: "session_grows s s1" by simp
  from g k have k1: "tablename (classes s1 m) = Some k" by (simp add: session_grows_def)
  from create_registers[OF k1] inst have "model_instance_registry s2 k = Some a"
    by (simp add: instantiate_def)
  moreover from session_grows_invocation(3)[of s2 CREATE_STRATEGY a "fattrs f"] pg
  have "session_grows s2 s'" by simp
  ultimately show ?thesis by (simp add: session_grows_def)
qed









subsection \<open>Evaluating the examples\<close>

lemmas task_defs = task_env_def task_env_plain_def task_overrides_def task_cls_def

lemmas shipment_defs = shipment_env_def shipment_cls_def

lemmas team_defs = team_env_def team_classes_def team_cls_def member_cls_def

lemma ci_job_make_factory:
  "make_factory ci_env (Suc (Suc n)) (new_session ci_classes) 1 {} =
     (Inr job_factory, snd (make_factory ci_env (Suc (Suc n)) (new_session ci_classes) 1 {}))"
  by (simp add: eval_defs ci_defs job_factory_def pipeline_factory_inner_def)

lemma ci_job_selectors:
  "factory_registry (new_session ci_classes) (fullname (classes (new_session ci_classes) 1)) = None"
  "relation_cols (relationships (classes (new_session ci_classes) 1)) = Inr {}"
  "fullname (classes (new_session ci_classes) 1) = ''job''"
  "relationships (classes (new_session ci_classes) 1) = []"
  "serialize_rules (classes (new_session ci_classes) 1) = Some [''-secret'']"
  by (simp_all add: new_session_def ci_defs)

subsection \<open>Overrides\<close>

text \<open>
  C2, as stated (the override is assigned for every possible override value, and wins
  over declared-relationship coverage), fails: \<^verbatim>\<open>if override:\<close> tests the truth value of
  the override. With the override \<^verbatim>\<open>{'task': {'retries': 0}}\<close> the factory of \<open>Task\<close>
  gives \<^verbatim>\<open>retries\<close> the provider's declaration, not 0. And coverage wins over the
  override: with \<^verbatim>\<open>{'member': {'team_id': 7}}\<close> the factory of \<open>Member\<close>, whose
  \<^verbatim>\<open>team_id\<close> is the join column of the declared relationship \<^verbatim>\<open>team\<close>, has no
  attribute \<^verbatim>\<open>team_id\<close> at all.
\<close>

theorem override_falsy_counterexample:
  "get_override task_env (fullname task_cls) ''retries'' = Some (Val (PyInt 0)) \<and>
   fst (make_factory task_env (Suc 0) (new_session (\<lambda>_. task_cls)) 0 {}) = Inr task_factory \<and>
   map_of (fattrs task_factory) ''retries'' = Some (Faker ''random_int'' []) \<and>
   get_override team_env_overridden (fullname member_cls) ''team_id'' = Some (Val (PyInt 7)) \<and>
   truthy (Val (PyInt 7)) \<and>
   factory_registry
     (snd (make_factory team_env_overridden (Suc (Suc 0)) (new_session team_classes) 0 {}))
     (fullname member_cls) = Some member_factory \<and>
   map_of (fattrs member_factory) ''team_id'' = None"
  by (simp add: eval_defs task_defs task_factory_def team_defs team_env_overridden_def
      team_overrides_def member_factory_def)

text \<open>
  C2, amended. Let a build of a model that is not yet registered succeed, and let a
  column reach the assignment of lines 109 to 114, which a column does when it has no
  foreign key, or when its key is neither the first local column of a declared
  relationship nor without the suffix \<^verbatim>\<open>_id\<close>. If the override entry for (table
  fullname, column name) is true in Python's sense, the built factory has exactly the
  override under the column's name, whatever the provider table holds, provided no
  relationship key, inferred relation name or \<^verbatim>\<open>Meta\<close> equals that name (a later
  assignment to the same dictionary key would replace it).
\<close>

theorem override_assigned:
  assumes mk: "make_factory e n s model P = (Inr f, s')"
    and unreg: "factory_registry s (fullname (classes s model)) = None"
    and rc: "relation_cols (relationships (classes s model)) = Inr rc"
    and col: "col \<in> set (columns (classes s model))"
    and reach: "foreign_keys col = [] \<or> (col_key col \<notin> rc \<and> last3 (col_key col) = ''_id'')"
    and ov: "get_override e (fullname (classes s model)) (col_name col) = Some ov" "truthy ov"
    and k1: "col_name col \<notin> rel_key ` set (relationships (classes s model))"
    and k2: "col_name col \<notin> relation_name ` set (inferred_relationships rc (columns (classes s model)))"
    and k3: "col_name col \<noteq> ''Meta''"
  shows "map_of (fattrs f) (col_name col) = Some ov"
proof -
  from mk unreg obtain n' rc' fa dr fa1 s1 fa2 s2 where
    rc': "relation_cols (relationships (classes s model)) = Inr rc'" and
    cl: "column_loop e (fullname (classes s model)) rc' (columns (classes s model)) [] [] = Inr (fa, dr)" and
    wr: "wire_relationships (make_factory e n') e (insert (fullname (classes s model)) P)
       (relationships (classes s model)) fa s = (Inr fa1, s1)" and
    wd: "wire_dynamic (make_factory e n') e (insert (fullname (classes s model)) P) model dr fa1 s1
       = (Inr fa2, s2)" and
    reg: "register_factory model fa2 s2 = (Inr f, s')"
    by (rule make_factory_SucE)
  from rc rc' have [simp]: "rc' = rc" by simp
  from reach have ns: "\<not> fk_skipped rc col" by (auto simp: fk_skipped_def)
  from column_loop_dynamic[OF cl] have dr: "dr = inferred_relationships rc (columns (classes s model))"
    by simp
  have "map_of fa (col_name col) = Some ov"
    using column_loop_override[OF cl ov] col ns by auto
  with wire_relationships_frame[OF wr k1] have "map_of fa1 (col_name col) = Some ov" by simp
  with wire_dynamic_frame[OF wd] k2 dr have "map_of fa2 (col_name col) = Some ov" by simp
  with reg k3 show ?thesis
    by (auto simp: register_factory_def Let_def update_conv')
qed

theorem override_assigned_witness:
  "make_factory ci_env (Suc (Suc 0)) (new_session ci_classes) 1 {} =
     (Inr job_factory, snd (make_factory ci_env (Suc (Suc 0)) (new_session ci_classes) 1 {})) \<and>
   get_override ci_env ''job'' ''status'' = Some (Val (PyStr ''RUNNING'')) \<and>
   truthy (Val (PyStr ''RUNNING'')) \<and>
   map_of (fattrs job_factory) ''status'' = Some (Val (PyStr ''RUNNING''))"
proof -
  let ?col = "\<lparr> col_key = ''status'', col_name = ''status'', foreign_keys = [],
                col_type = String None, primary_key = False \<rparr>"
  have mk: "make_factory ci_env (Suc (Suc 0)) (new_session ci_classes) 1 {} =
     (Inr job_factory, snd (make_factory ci_env (Suc (Suc 0)) (new_session ci_classes) 1 {}))"
    by (rule ci_job_make_factory)
  have col: "?col \<in> set (columns (classes (new_session ci_classes) 1))"
    by (simp add: new_session_def ci_defs)
  have reach: "foreign_keys ?col = [] \<or> (col_key ?col \<notin> {} \<and> last3 (col_key ?col) = ''_id'')"
    by simp
  have ov: "get_override ci_env (fullname (classes (new_session ci_classes) 1)) (col_name ?col)
              = Some (Val (PyStr ''RUNNING''))"
    by (simp add: eval_defs ci_defs)
  have tr: "truthy (Val (PyStr ''RUNNING''))" by simp
  have k1: "col_name ?col \<notin> rel_key ` set (relationships (classes (new_session ci_classes) 1))"
    by (simp add: new_session_def ci_defs)
  have k2: "col_name ?col \<notin> relation_name `
              set (inferred_relationships {} (columns (classes (new_session ci_classes) 1)))"
    by (simp add: new_session_def ci_defs inferred_relationships_def last3_def strip3_def)
  have k3: "col_name ?col \<noteq> ''Meta''" by simp
  have "map_of (fattrs job_factory) ''status'' = Some (Val (PyStr ''RUNNING''))"
    using override_assigned[OF mk ci_job_selectors(1,2) col reach ov tr k1 k2 k3] by simp
  moreover have "get_override ci_env ''job'' ''status'' = Some (Val (PyStr ''RUNNING''))"
    by (simp add: eval_defs ci_defs)
  ultimately show ?thesis using mk tr by blast
qed

subsection \<open>The policy for a column\<close>

text \<open>
  C3, as stated (override, else skipped when covered by a declared relationship, else a
  provider value; no column outside the covered set is left without a value), fails. In
  \<open>Task\<close> no relationship is declared, so no column is covered, and \<^verbatim>\<open>owner\<close> has no
  override; yet the built factory has no attribute \<^verbatim>\<open>owner\<close>: a column with a foreign
  key whose key does not end in \<^verbatim>\<open>_id\<close> is skipped. In \<open>Team\<close> the column \<^verbatim>\<open>id\<close> is
  the join column of the declared relationship \<^verbatim>\<open>members\<close> and has no override; yet it
  is not skipped: only columns with a foreign key are.
\<close>

theorem column_policy_counterexample:
  "relation_cols (relationships task_cls) = Inr {} \<and>
   get_override task_env (fullname task_cls) ''owner'' = None \<and>
   data_providers Integer \<noteq> None \<and>
   fst (make_factory task_env (Suc 0) (new_session (\<lambda>_. task_cls)) 0 {}) = Inr task_factory \<and>
   map_of (fattrs task_factory) ''owner'' = None \<and>
   relation_cols (relationships team_cls) = Inr {''id''} \<and>
   get_override team_env (fullname team_cls) ''id'' = None \<and>
   fst (make_factory team_env (Suc (Suc 0)) (new_session team_classes) 0 {}) = Inr team_factory \<and>
   map_of (fattrs team_factory) ''id'' = Some (Faker ''random_int'' [])"
  by (simp add: eval_defs task_defs task_factory_def team_defs team_factory_def member_factory_def)

text \<open>
  C3, amended. In the factory built for a model that was not registered, the attribute
  named after a column is decided in this order: a column with a foreign key whose key
  is the first local column of a declared relationship, or does not end in \<^verbatim>\<open>_id\<close>, gets
  no attribute (its override, if any, is not looked at); otherwise a true override is
  used as it is; otherwise the provider of the column's type gives the value, and since
  the build succeeded that provider exists. Column names are assumed distinct and
  different from the relationship keys, the inferred relation names and \<^verbatim>\<open>Meta\<close>.
\<close>

theorem column_policy:
  assumes mk: "make_factory e n s model P = (Inr f, s')"
    and unreg: "factory_registry s (fullname (classes s model)) = None"
    and rc: "relation_cols (relationships (classes s model)) = Inr rc"
    and col: "col \<in> set (columns (classes s model))"
    and dist: "distinct (map col_name (columns (classes s model)))"
    and k1: "col_name col \<notin> rel_key ` set (relationships (classes s model))"
    and k2: "col_name col \<notin> relation_name ` set (inferred_relationships rc (columns (classes s model)))"
    and k3: "col_name col \<noteq> ''Meta''"
  shows "map_of (fattrs f) (col_name col) =
           (if foreign_keys col \<noteq> [] \<and> (col_key col \<in> rc \<or> last3 (col_key col) \<noteq> ''_id'')
            then None
            else if (\<exists>ov. get_override e (fullname (classes s model)) (col_name col) = Some ov \<and> truthy ov)
            then get_override e (fullname (classes s model)) (col_name col)
            else map_option (\<lambda>p. p col) (data_providers (col_type col))) \<and>
         (foreign_keys col = [] \<or> (col_key col \<notin> rc \<and> last3 (col_key col) = ''_id'')
            \<longrightarrow> map_of (fattrs f) (col_name col) \<noteq> None)"
proof -
  from mk unreg obtain n' rc' fa dr fa1 s1 fa2 s2 where
    rc': "relation_cols (relationships (classes s model)) = Inr rc'" and
    cl: "column_loop e (fullname (classes s model)) rc' (columns (classes s model)) [] [] = Inr (fa, dr)" and
    wr: "wire_relationships (make_factory e n') e (insert (fullname (classes s model)) P)
       (relationships (classes s model)) fa s = (Inr fa1, s1)" and
    wd: "wire_dynamic (make_factory e n') e (insert (fullname (classes s model)) P) model dr fa1 s1
       = (Inr fa2, s2)" and
    reg: "register_factory model fa2 s2 = (Inr f, s')"
    by (rule make_factory_SucE)
  from rc rc' have [simp]: "rc' = rc" by simp
  from column_loop_dynamic[OF cl] have dr: "dr = inferred_relationships rc (columns (classes s model))"
    by simp
  have "map_of fa1 (col_name col) = map_of fa (col_name col)"
    by (rule wire_relationships_frame[OF wr k1])
  moreover have "map_of fa2 (col_name col) = map_of fa1 (col_name col)"
    using wire_dynamic_frame[OF wd] k2 dr by simp
  moreover from reg k3 have "map_of (fattrs f) (col_name col) = map_of fa2 (col_name col)"
    by (auto simp: register_factory_def Let_def update_conv')
  ultimately have final: "map_of (fattrs f) (col_name col) = map_of fa (col_name col)" by simp
  show ?thesis
  proof (cases "fk_skipped rc col")
    case True
    from column_loop_skips[OF cl[simplified] dist col True] final True
    show ?thesis by (auto simp: fk_skipped_def)
  next
    case False
    from column_loop_assigns[OF cl[simplified] dist col False] obtain a where
      a: "column_attribute e (fullname (classes s model)) col = Inr a"
         "map_of fa (col_name col) = Some a" by blast
    from False have ns: "\<not> (foreign_keys col \<noteq> [] \<and> (col_key col \<in> rc \<or> last3 (col_key col) \<noteq> ''_id''))"
      by (simp add: fk_skipped_def)
    from a(1) have eq:
      "(if (\<exists>ov. get_override e (fullname (classes s model)) (col_name col) = Some ov \<and> truthy ov)
        then get_override e (fullname (classes s model)) (col_name col)
        else map_option (\<lambda>p. p col) (data_providers (col_type col))) = Some a"
      by (auto simp: column_attribute_def provide_def split: option.splits if_splits)
    from a(2) final have 1: "map_of (fattrs f) (col_name col) = Some a" by simp
    show ?thesis unfolding if_not_P[OF ns] 1 eq by simp
  qed
qed

theorem column_policy_witness:
  "make_factory ci_env (Suc (Suc 0)) (new_session ci_classes) 1 {} =
     (Inr job_factory, snd (make_factory ci_env (Suc (Suc 0)) (new_session ci_classes) 1 {})) \<and>
   get_override ci_env ''job'' ''pipeline_id'' = None \<and>
   map_of (fattrs job_factory) ''pipeline_id'' = Some (Faker ''random_int'' [])"
proof -
  let ?col = "\<lparr> col_key = ''pipeline_id'', col_name = ''pipeline_id'', foreign_keys = [''pipeline''],
                col_type = Integer, primary_key = False \<rparr>"
  have mk: "make_factory ci_env (Suc (Suc 0)) (new_session ci_classes) 1 {} =
     (Inr job_factory, snd (make_factory ci_env (Suc (Suc 0)) (new_session ci_classes) 1 {}))"
    by (rule ci_job_make_factory)
  have col: "?col \<in> set (columns (classes (new_session ci_classes) 1))"
    by (simp add: new_session_def ci_defs)
  have dist: "distinct (map col_name (columns (classes (new_session ci_classes) 1)))"
    by (simp add: new_session_def ci_defs)
  have k1: "col_name ?col \<notin> rel_key ` set (relationships (classes (new_session ci_classes) 1))"
    by (simp add: new_session_def ci_defs)
  have k2: "col_name ?col \<notin> relation_name `
              set (inferred_relationships {} (columns (classes (new_session ci_classes) 1)))"
    by (simp add: new_session_def ci_defs inferred_relationships_def last3_def strip3_def)
  have k3: "col_name ?col \<noteq> ''Meta''" by simp
  have ov: "get_override ci_env ''job'' ''pipeline_id'' = None"
    by (simp add: eval_defs ci_defs)
  have "map_of (fattrs job_factory) ''pipeline_id'' = Some (Faker ''random_int'' [])"
    using column_policy[OF mk ci_job_selectors(1,2) col dist k1 k2 k3]
    by (simp add: eval_defs ci_defs)
  with mk ov show ?thesis by blast
qed

subsection \<open>The relationship resolver\<close>

text \<open>
  C7, as stated (the covered set is the full set of keys reached through each declared
  relationship's local join columns), fails: only the first local column of each
  relationship is taken. \<open>Shipment\<close> declares \<^verbatim>\<open>line\<close> over \<^verbatim>\<open>order_id\<close> and
  \<^verbatim>\<open>order_line_id\<close>; the covered set is \<^verbatim>\<open>{order_id}\<close>, and an inferred relationship
  \<^verbatim>\<open>order_line\<close> is emitted for \<^verbatim>\<open>order_line_id\<close>, a join column of a declared
  relationship.
\<close>

theorem relation_cols_counterexample:
  "declared_relationship_columns (relationships shipment_cls) = {''order_id'', ''order_line_id''} \<and>
   relation_cols (relationships shipment_cls) = Inr {''order_id''} \<and>
   column_loop shipment_env ''shipment'' {''order_id''} (columns shipment_cls) [] [] =
     Inr ([(''id'', Faker ''random_int'' []),
           (''order_line_id'', Faker ''random_int'' []),
           (''carrier_id'', Faker ''random_int'' [])],
          [\<lparr> foreign_table_name = ''order_line'', relation_name = ''order_line'' \<rparr>,
           \<lparr> foreign_table_name = ''carrier'', relation_name = ''carrier'' \<rparr>])"
  by (auto simp: eval_defs shipment_defs declared_relationship_columns_def)

text \<open>
  C7, amended. When lines 89 to 114 run without raising, (a) the covered set is the set
  of the first local column key of each declared relationship, and (b) the inferred
  relationships are, in column order, one for each column that has a foreign key, whose
  key is not in that set and ends in \<^verbatim>\<open>_id\<close>, named by the key without the suffix and
  aimed at the table of the column's first foreign key.
\<close>

theorem relationship_resolver:
  assumes "relation_cols rels = Inr rc"
    and "column_loop e table_name rc cols [] [] = Inr (fa, dr)"
  shows "rc = first_local_columns rels \<and> dr = inferred_relationships rc cols"
  using relation_cols_first[OF assms(1)] column_loop_dynamic[OF assms(2)] by simp

theorem relationship_resolver_witness:
  "relation_cols (relationships shipment_cls) = Inr {''order_id''} \<and>
   {''order_id''} = first_local_columns (relationships shipment_cls) \<and>
   [\<lparr> foreign_table_name = ''order_line'', relation_name = ''order_line'' \<rparr>,
    \<lparr> foreign_table_name = ''carrier'', relation_name = ''carrier'' \<rparr>]
     = inferred_relationships {''order_id''} (columns shipment_cls)"
proof -
  have rc: "relation_cols (relationships shipment_cls) = Inr {''order_id''}"
    by (simp add: shipment_defs)
  have cl: "column_loop shipment_env ''shipment'' {''order_id''} (columns shipment_cls) [] [] =
     Inr ([(''id'', Faker ''random_int'' []),
           (''order_line_id'', Faker ''random_int'' []),
           (''carrier_id'', Faker ''random_int'' [])],
          [\<lparr> foreign_table_name = ''order_line'', relation_name = ''order_line'' \<rparr>,
           \<lparr> foreign_table_name = ''carrier'', relation_name = ''carrier'' \<rparr>])"
    by (simp add: eval_defs shipment_defs)
  from relationship_resolver[OF rc cl] rc show ?thesis by simp
qed

subsection \<open>Configuration errors\<close>

text \<open>
  C9, as stated (every column whose type has no provider, and every foreign key or
  relationship whose target table has no model, makes \<^verbatim>\<open>make_factory\<close> fail), fails. In
  \<open>Task\<close> the column \<^verbatim>\<open>notes\<close> has a type without provider and \<^verbatim>\<open>owner\<close> has a foreign
  key to \<^verbatim>\<open>account\<close>, a table that no model maps; with a true override on
  \<^verbatim>\<open>notes\<close> the build succeeds: the override bypasses the provider table, and the
  foreign key is skipped for want of the suffix \<^verbatim>\<open>_id\<close>.
\<close>

theorem configuration_error_counterexample:
  "data_providers (OtherType ''Text'') = None \<and>
   tables_to_models task_env ''account'' = None \<and>
   fst (make_factory task_env (Suc 0) (new_session (\<lambda>_. task_cls)) 0 {}) = Inr task_factory"
  by (simp add: eval_defs task_defs task_factory_def)

text \<open>
  C9, amended. For a model that is not registered (and whose relationships all have a
  local column): if some column reaches the provider lookup, that is, it is not skipped
  as a foreign key and has no true override, and its type has no provider, then
  \<^verbatim>\<open>make_factory\<close> raises KeyError before it changes anything; and if the target of some
  declared relationship outside the visited set, or of some inferred relationship, is
  not a key of \<^verbatim>\<open>tables_to_models\<close>, then \<^verbatim>\<open>make_factory\<close> raises and returns no
  factory.
\<close>

theorem configuration_errors:
  assumes unreg: "factory_registry s (fullname (classes s model)) = None"
    and rc: "relation_cols (relationships (classes s model)) = Inr rc"
  shows "((\<exists>col\<in>set (columns (classes s model)).
             (foreign_keys col = [] \<or> (col_key col \<notin> rc \<and> last3 (col_key col) = ''_id'')) \<and>
             \<not> (\<exists>ov. get_override e (fullname (classes s model)) (col_name col) = Some ov \<and> truthy ov) \<and>
             data_providers (col_type col) = None)
          \<longrightarrow> make_factory e (Suc n) s model P = (Inl KeyError, s)) \<and>
         (((\<exists>r\<in>set (relationships (classes s model)).
              target r \<notin> insert (fullname (classes s model)) P \<and> tables_to_models e (target r) = None) \<or>
           (\<exists>d\<in>set (inferred_relationships rc (columns (classes s model))).
              tables_to_models e (foreign_table_name d) = None))
          \<longrightarrow> (\<exists>err. fst (make_factory e k s model P) = Inl err))"
proof (intro conjI impI)
  assume "\<exists>col\<in>set (columns (classes s model)).
             (foreign_keys col = [] \<or> (col_key col \<notin> rc \<and> last3 (col_key col) = ''_id'')) \<and>
             \<not> (\<exists>ov. get_override e (fullname (classes s model)) (col_name col) = Some ov \<and> truthy ov) \<and>
             data_providers (col_type col) = None"
  then obtain col where col: "col \<in> set (columns (classes s model))"
    and ns: "\<not> fk_skipped rc col"
    and nov: "\<not> (\<exists>ov. get_override e (fullname (classes s model)) (col_name col) = Some ov \<and> truthy ov)"
    and np: "data_providers (col_type col) = None"
    by (auto simp: fk_skipped_def)
  from column_loop_no_provider[OF col ns nov np]
  have "column_loop e (fullname (classes s model)) rc (columns (classes s model)) [] [] = Inl KeyError" .
  with unreg rc show "make_factory e (Suc n) s model P = (Inl KeyError, s)"
    by (simp add: Let_def)
next
  assume bad: "(\<exists>r\<in>set (relationships (classes s model)).
              target r \<notin> insert (fullname (classes s model)) P \<and> tables_to_models e (target r) = None) \<or>
           (\<exists>d\<in>set (inferred_relationships rc (columns (classes s model))).
              tables_to_models e (foreign_table_name d) = None)"
  show "\<exists>err. fst (make_factory e k s model P) = Inl err"
  proof (cases k)
    case 0
    then show ?thesis by simp
  next
    case (Suc k')
    let ?tn = "fullname (classes s model)"
    show ?thesis
    proof (cases "column_loop e ?tn rc (columns (classes s model)) [] []")
      case (Inl err)
      with Suc unreg rc show ?thesis by (simp add: Let_def)
    next
      case (Inr fadr)
      obtain fa dr where fadr: "fadr = (fa, dr)" by (cases fadr)
      from column_loop_dynamic[OF Inr[unfolded fadr]]
      have dr: "dr = inferred_relationships rc (columns (classes s model))" by simp
      obtain r1 s1 where w1: "wire_relationships (make_factory e k') e (insert ?tn P)
          (relationships (classes s model)) fa s = (r1, s1)"
        by (cases "wire_relationships (make_factory e k') e (insert ?tn P)
          (relationships (classes s model)) fa s")
      show ?thesis
      proof (cases r1)
        case (Inl err)
        with Suc unreg rc Inr fadr w1 show ?thesis by (simp add: Let_def)
      next
        case fa1: (Inr fa1)
        have nodecl: "\<not> (\<exists>r\<in>set (relationships (classes s model)).
              target r \<notin> insert ?tn P \<and> tables_to_models e (target r) = None)"
        proof
          assume "\<exists>r\<in>set (relationships (classes s model)).
              target r \<notin> insert ?tn P \<and> tables_to_models e (target r) = None"
          then obtain r where "r \<in> set (relationships (classes s model))"
            "target r \<notin> insert ?tn P" "tables_to_models e (target r) = None" by blast
          from wire_relationships_unknown_target[OF this, of "make_factory e k'" fa s] w1 fa1
          show False by simp
        qed
        with bad obtain d where d: "d \<in> set dr" "tables_to_models e (foreign_table_name d) = None"
          using dr by blast
        from wire_dynamic_unknown_target[OF d, of "make_factory e k'" "insert ?tn P" model fa1 s1]
        obtain err where "fst (wire_dynamic (make_factory e k') e (insert ?tn P) model dr fa1 s1) = Inl err"
          by blast
        with Suc unreg rc Inr fadr w1 fa1 show ?thesis
          by (auto simp: Let_def split: prod.splits sum.splits)
      qed
    qed
  qed
qed

theorem configuration_errors_witness:
  "data_providers (OtherType ''Text'') = None \<and>
   make_factory task_env_plain (Suc 0) (new_session (\<lambda>_. task_cls)) 0 {}
     = (Inl KeyError, new_session (\<lambda>_. task_cls)) \<and>
   tables_to_models job_only_env ''pipeline'' = None \<and>
   (\<exists>err. fst (make_factory job_only_env (Suc (Suc 0)) (new_session ci_classes) 1 {}) = Inl err)"
proof -
  let ?s = "new_session (\<lambda>_. task_cls)"
  let ?col = "\<lparr> col_key = ''notes'', col_name = ''notes'', foreign_keys = [],
                col_type = OtherType ''Text'', primary_key = False \<rparr>"
  have unreg: "factory_registry ?s (fullname (classes ?s 0)) = None"
    by (simp add: new_session_def)
  have rc: "relation_cols (relationships (classes ?s 0)) = Inr {}"
    by (simp add: new_session_def task_defs)
  have col: "\<exists>col\<in>set (columns (classes ?s 0)).
             (foreign_keys col = [] \<or> (col_key col \<notin> {} \<and> last3 (col_key col) = ''_id'')) \<and>
             \<not> (\<exists>ov. get_override task_env_plain (fullname (classes ?s 0)) (col_name col) = Some ov \<and> truthy ov) \<and>
             data_providers (col_type col) = None"
    by (rule bexI[where x="?col"]) (simp_all add: new_session_def task_defs eval_defs)
  have a: "make_factory task_env_plain (Suc 0) ?s 0 {} = (Inl KeyError, ?s)"
    using configuration_errors[OF unreg rc, of task_env_plain 0 "{}" 0] col by blast
  let ?t = "new_session ci_classes"
  have unreg': "factory_registry ?t (fullname (classes ?t 1)) = None"
    by (simp add: new_session_def)
  have bad: "\<exists>d\<in>set (inferred_relationships {} (columns (classes ?t 1))).
              tables_to_models job_only_env (foreign_table_name d) = None"
    by (simp add: new_session_def ci_defs inferred_relationships_def last3_def strip3_def
        job_only_env_def factory_generator_def)
  have b: "\<exists>err. fst (make_factory job_only_env (Suc (Suc 0)) ?t 1 {}) = Inl err"
    using configuration_errors[OF unreg' ci_job_selectors(2), of job_only_env 0 "{}" "Suc (Suc 0)"] bad
    by blast
  have c: "tables_to_models job_only_env ''pipeline'' = None"
    by (simp add: job_only_env_def factory_generator_def ci_defs)
  have d: "data_providers (OtherType ''Text'') = None" by simp
  from a b c d show ?thesis by blast
qed

subsection \<open>Inferred relationships are written to the model class\<close>

lemma ci_job_session_eval:
  "make_factory ci_env (Suc (Suc 0)) (new_session ci_classes) 1 {} = (Inr job_factory, ci_job_session)"
  unfolding ci_job_session_def by (rule ci_job_make_factory)

text \<open>
  C10 (for every inferred relationship it materialises, \<^verbatim>\<open>make_factory\<close> sets a
  relationship attribute named by the stripped column key on the model class and, when
  the class has \<^verbatim>\<open>serialize_rules\<close>, appends the rule \<^verbatim>\<open>-name\<close> to it; both persist
  after the call). Let a build of a model that is not registered succeed. Then for
  every column with a foreign key, whose key is not covered and ends in \<^verbatim>\<open>_id\<close>, the
  class in the store that the call leaves behind, also when a new session is started on
  that store, has a relationship attribute under the key without its suffix; and if the
  class had \<^verbatim>\<open>serialize_rules\<close> before the call, it now has the old rules, followed by
  further rules among which is \<^verbatim>\<open>-name\<close>.
\<close>

theorem inferred_relationship_mutates_class:
  assumes mk: "make_factory e n s model P = (Inr f, s')"
    and unreg: "factory_registry s (fullname (classes s model)) = None"
    and rc: "relation_cols (relationships (classes s model)) = Inr rc"
    and col: "col \<in> set (columns (classes s model))"
    and fk: "foreign_keys col \<noteq> []" "col_key col \<notin> rc" "last3 (col_key col) = ''_id''"
  shows "(\<exists>c. map_of (cls_attrs (classes (new_session (classes s')) model)) (strip3 (col_key col))
              = Some (Relationship c)) \<and>
         (\<forall>rules. serialize_rules (classes s model) = Some rules \<longrightarrow>
            (\<exists>xs ys. serialize_rules (classes (new_session (classes s')) model)
                       = Some (rules @ xs @ [''-'' @ strip3 (col_key col)] @ ys)))"
proof -
  from mk unreg obtain n' rc' fa dr fa1 s1 fa2 s2 where
    rc': "relation_cols (relationships (classes s model)) = Inr rc'" and
    cl: "column_loop e (fullname (classes s model)) rc' (columns (classes s model)) [] [] = Inr (fa, dr)" and
    wr: "wire_relationships (make_factory e n') e (insert (fullname (classes s model)) P)
       (relationships (classes s model)) fa s = (Inr fa1, s1)" and
    wd: "wire_dynamic (make_factory e n') e (insert (fullname (classes s model)) P) model dr fa1 s1
       = (Inr fa2, s2)" and
    reg: "register_factory model fa2 s2 = (Inr f, s')"
    by (rule make_factory_SucE)
  from rc rc' have [simp]: "rc' = rc" by simp
  let ?d = "\<lparr> foreign_table_name = hd (foreign_keys col), relation_name = strip3 (col_key col) \<rparr>"
  from column_loop_dynamic[OF cl] col fk have d: "?d \<in> set dr"
    by (auto simp: inferred_relationships_def)
  from wire_relationships_extends[where rec="make_factory e n'" and s=s and e=e and fa=fa
      and P="insert (fullname (classes s model)) P" and rels="relationships (classes s model)",
      OF make_factory_extends] wr
  have e1: "class_extends (classes s model) (classes s1 model)"
    by (simp add: build_extends_def)
  from wire_dynamic_effect[where rec="make_factory e n'", OF make_factory_extends wd d]
  have a: "\<exists>c. map_of (cls_attrs (classes s2 model)) (strip3 (col_key col)) = Some (Relationship c)"
    and b: "\<forall>rules. serialize_rules (classes s1 model) = Some rules \<longrightarrow>
       (\<exists>xs ys. serialize_rules (classes s2 model) = Some (rules @ xs @ [''-'' @ strip3 (col_key col)] @ ys))"
    by simp_all
  from reg have cs: "classes s' = classes s2"
    using register_factory_classes[of model fa2 s2] by simp
  have "\<exists>xs ys. serialize_rules (classes s2 model) = Some (rules @ xs @ [''-'' @ strip3 (col_key col)] @ ys)"
    if r: "serialize_rules (classes s model) = Some rules" for rules
  proof -
    from e1 r obtain zs where "serialize_rules (classes s1 model) = Some (rules @ zs)"
      by (auto simp: class_extends_def)
    with b obtain xs ys where
      "serialize_rules (classes s2 model) = Some ((rules @ zs) @ xs @ [''-'' @ strip3 (col_key col)] @ ys)"
      by blast
    then have "serialize_rules (classes s2 model) = Some (rules @ (zs @ xs) @ [''-'' @ strip3 (col_key col)] @ ys)"
      by simp
    then show ?thesis by blast
  qed
  with a cs show ?thesis by (simp add: new_session_sel)
qed

theorem inferred_relationship_mutates_class_witness:
  "make_factory ci_env (Suc (Suc 0)) (new_session ci_classes) 1 {} = (Inr job_factory, ci_job_session) \<and>
   serialize_rules (classes (new_session ci_classes) 1) = Some [''-secret''] \<and>
   (\<exists>c. map_of (cls_attrs (classes (new_session (classes ci_job_session)) 1)) ''pipeline''
          = Some (Relationship c)) \<and>
   (\<exists>xs ys. serialize_rules (classes (new_session (classes ci_job_session)) 1)
          = Some ([''-secret''] @ xs @ [''-pipeline''] @ ys))"
proof -
  let ?col = "\<lparr> col_key = ''pipeline_id'', col_name = ''pipeline_id'', foreign_keys = [''pipeline''],
                col_type = Integer, primary_key = False \<rparr>"
  have col: "?col \<in> set (columns (classes (new_session ci_classes) 1))"
    by (simp add: new_session_def ci_defs)
  have fk: "foreign_keys ?col \<noteq> []" "col_key ?col \<notin> {}" "last3 (col_key ?col) = ''_id''"
    by (simp_all add: last3_def)
  have strip: "strip3 (col_key ?col) = ''pipeline''" by (simp add: strip3_def)
  note th = inferred_relationship_mutates_class[OF ci_job_session_eval ci_job_selectors(1,2) col fk,
      unfolded strip]
  from th have 1: "\<exists>c. map_of (cls_attrs (classes (new_session (classes ci_job_session)) 1)) ''pipeline''
          = Some (Relationship c)" by blast
  from th ci_job_selectors(5)
  have "\<exists>xs ys. serialize_rules (classes (new_session (classes ci_job_session)) 1)
          = Some ([''-secret''] @ xs @ [''-'' @ ''pipeline''] @ ys)" by blast
  then have 2: "\<exists>xs ys. serialize_rules (classes (new_session (classes ci_job_session)) 1)
          = Some ([''-secret''] @ xs @ [''-pipeline''] @ ys)" by simp
  from ci_job_session_eval ci_job_selectors(5) 1 2 show ?thesis by blast
qed

subsection \<open>One instance for each entity type\<close>

lemma team_session_eval:
  "team_session =
     \<lparr> classes = team_classes,
       factory_registry = [''member'' \<mapsto> member_factory, ''team'' \<mapsto> team_factory],
       model_instance_registry = Map.empty, instances = [], next_fid = 2, draws = 0 \<rparr>"
  by (simp add: team_session_def eval_defs team_defs member_factory_def team_factory_def)


lemmas invoke_defs =
  get_model_class_def instantiate_def RegistryModelFactory_create_def Factory_create_def
  getattr_collection_def append_related_def

lemma team_first_call:
  "call_factory CREATE_STRATEGY team_factory team_session = (Inr 0, team_session_invoked)"
  "instances team_session_invoked =
     [\<lparr> inst_model = 0, inst_attrs = [(''id'', Drawn ''random_int'' [] 0), (''members'', Coll [1])] \<rparr>,
      \<lparr> inst_model = 1, inst_attrs = [(''id'', Drawn ''random_int'' [] 1)] \<rparr>]"
  "model_instance_registry team_session_invoked ''team'' = Some 0"
  "classes team_session_invoked = team_classes"
  by (simp_all add: team_session_invoked_def team_session_eval team_factory_def member_factory_def
      invoke_defs team_classes_def team_cls_def member_cls_def)

lemma team_second_call:
  "fst (call_factory CREATE_STRATEGY team_factory team_session_invoked) = Inr 0"
  "instances (snd (call_factory CREATE_STRATEGY team_factory team_session_invoked)) =
     [\<lparr> inst_model = 0, inst_attrs = [(''id'', Drawn ''random_int'' [] 0), (''members'', Coll [1, 1])] \<rparr>,
      \<lparr> inst_model = 1, inst_attrs = [(''id'', Drawn ''random_int'' [] 1)] \<rparr>]"
  by (simp_all add: team_session_invoked_def team_session_eval team_factory_def member_factory_def
      invoke_defs team_classes_def team_cls_def member_cls_def)

text \<open>
  C5 (at most one instance is materialised for each entity type in a session; every
  invocation of a factory for the type returns the cached instance; calling a factory
  twice yields the same instance). An entity type is identified by \<^verbatim>\<open>__tablename__\<close>,
  the key of the instance registry. Let the session invariant hold, as it does in a
  fresh session, and let an invocation of a factory for the table \<open>k\<close> return the
  instance \<open>a\<close>. Then the invariant holds afterwards; \<open>a\<close> is the instance registered
  for \<open>k\<close>, and it is the one that was registered before the call if there was one; no
  two materialised instances belong to the same table; and in whatever state \<open>a\<close> is
  the instance registered for \<open>k\<close>, an invocation of any factory for the table \<open>k\<close>,
  at the top or nested in another invocation, returns \<open>a\<close> and leaves it registered.
  Builds and invocations keep registered instances registered
  (\<open>make_factory_keeps_instances\<close>, \<open>session_grows_invocation\<close>).
\<close>

theorem single_instance_per_entity_type:
  assumes inv: "session_inv s"
    and call: "call_factory CREATE_STRATEGY f s = (Inr a, s')"
    and m: "get_model_class (fattrs f) = Some m"
    and k: "tablename (classes s m) = Some k"
  shows "session_inv s' \<and>
         model_instance_registry s' k = Some a \<and>
         (\<forall>a0. model_instance_registry s k = Some a0 \<longrightarrow> a = a0) \<and>
         (\<forall>i j. i < length (instances s') \<and> j < length (instances s') \<and>
                 tablename (classes s' (inst_model (instances s' ! i))) =
                 tablename (classes s' (inst_model (instances s' ! j))) \<longrightarrow> i = j) \<and>
         (\<forall>t g mg b t'. model_instance_registry t k = Some a \<and>
                 get_model_class (fattrs g) = Some mg \<and> tablename (classes t mg) = Some k \<and>
                 call_factory CREATE_STRATEGY g t = (Inr b, t') \<longrightarrow>
                 b = a \<and> model_instance_registry t' k = Some a)"
proof -
  from session_inv_invocation(1)[OF inv, of f] call have inv': "session_inv s'" by simp
  from call_factory_registers[OF call m k] have reg': "model_instance_registry s' k = Some a" .
  have hit: "\<forall>a0. model_instance_registry s k = Some a0 \<longrightarrow> a = a0"
    using call_factory_hit[OF call m k] by auto
  have uniq: "\<forall>i j. i < length (instances s') \<and> j < length (instances s') \<and>
                 tablename (classes s' (inst_model (instances s' ! i))) =
                 tablename (classes s' (inst_model (instances s' ! j))) \<longrightarrow> i = j"
    using session_inv_unique[OF inv'] by blast
  have later: "\<forall>t g mg b t'. model_instance_registry t k = Some a \<and>
                 get_model_class (fattrs g) = Some mg \<and> tablename (classes t mg) = Some k \<and>
                 call_factory CREATE_STRATEGY g t = (Inr b, t') \<longrightarrow>
                 b = a \<and> model_instance_registry t' k = Some a"
    using call_factory_hit call_factory_registers by blast
  from inv' reg' hit uniq later show ?thesis by blast
qed

theorem single_instance_per_entity_type_witness:
  "session_inv team_session \<and>
   call_factory CREATE_STRATEGY team_factory team_session = (Inr 0, team_session_invoked) \<and>
   session_inv team_session_invoked \<and>
   model_instance_registry team_session_invoked ''team'' = Some 0 \<and>
   length (instances team_session_invoked) = 2 \<and>
   fst (call_factory CREATE_STRATEGY team_factory team_session_invoked) = Inr 0"
proof -
  have inv: "session_inv team_session"
    by (simp add: team_session_eval session_inv_def)
  have m: "get_model_class (fattrs team_factory) = Some 0"
    by (simp add: team_factory_def get_model_class_def)
  have k: "tablename (classes team_session 0) = Some ''team''"
    by (simp add: team_session_eval team_classes_def team_cls_def)
  note th = single_instance_per_entity_type[OF inv team_first_call(1) m k]
  from th have inv': "session_inv team_session_invoked" by blast
  from th have reg: "model_instance_registry team_session_invoked ''team'' = Some 0" by blast
  have k': "tablename (classes team_session_invoked 0) = Some ''team''"
    by (simp add: team_first_call(4) team_classes_def team_cls_def)
  obtain b t where c2: "call_factory CREATE_STRATEGY team_factory team_session_invoked = (Inr b, t)"
    using team_second_call(1) by (cases "call_factory CREATE_STRATEGY team_factory team_session_invoked") auto
  with th m k' reg have "b = 0" by blast
  with c2 have again: "fst (call_factory CREATE_STRATEGY team_factory team_session_invoked) = Inr 0"
    by simp
  have len: "length (instances team_session_invoked) = 2"
    by (simp add: team_first_call(2))
  from inv team_first_call(1) inv' reg len again show ?thesis by blast
qed

subsection \<open>Wiring of the declared relationships\<close>







end
